theory Spec2Isabelle
  imports
    Main
    "HOL-Library.Word"
    "HOL-Library.Char_ord"
    "HOL-Library.List_Lexorder"
    "HOL-Library.AList"
    "HOL-Library.Multiset"
begin

section \<open>Strings, lines and paths\<close>

text \<open>
  Go strings are byte sequences; \<^typ>\<open>string\<close> is a list of 8-bit characters, ordered
  by byte value, and lists are ordered lexicographically, which is the order of Go's
  string comparison and of \<^verbatim>\<open>sort.Strings\<close>.
\<close>

definition newline :: char where
  "newline = CHR 0x0A"

definition carriageReturn :: char where
  "carriageReturn = CHR 0x0D"

text \<open>The character classes \<^verbatim>\<open>[A-Z]\<close> and \<^verbatim>\<open>\d\<close> of Go's regular expressions (ASCII only).\<close>

definition isUpper :: "char \<Rightarrow> bool" where
  "isUpper c = (CHR ''A'' \<le> c \<and> c \<le> CHR ''Z'')"

definition isDigit :: "char \<Rightarrow> bool" where
  "isDigit c = (CHR ''0'' \<le> c \<and> c \<le> CHR ''9'')"

text \<open>
  \<^verbatim>\<open>strings.Split(s, sep)\<close> for a one-byte separator: the pieces between the
  separators, one more than there are separators; the empty string gives one empty piece.
\<close>

fun splitOn :: "char \<Rightarrow> string \<Rightarrow> string list" where
  "splitOn sep [] = [[]]"
| "splitOn sep (c # cs) =
     (if c = sep then [] # splitOn sep cs
      else (case splitOn sep cs of [] \<Rightarrow> [[c]] | t # ts \<Rightarrow> (c # t) # ts))"

text \<open>
  The lines of a text are the pieces between its newlines; a last piece without a
  newline is a line when it is not empty. \<open>rawLines\<close> gives the lines with their bytes
  as they are, and \<open>fileLines\<close> without the one carriage return that may end a line
  (the end of a line is an optional carriage return and a newline, as for
  \<^verbatim>\<open>bufio.ScanLines\<close>).
\<close>

definition dropCR :: "string \<Rightarrow> string" where
  "dropCR data = (if data \<noteq> [] \<and> last data = carriageReturn then butlast data else data)"

definition rawLines :: "string \<Rightarrow> string list" where
  "rawLines content =
     (let pieces = splitOn newline content
      in if last pieces = [] then butlast pieces else pieces)"

definition fileLines :: "string \<Rightarrow> string list" where
  "fileLines content = map dropCR (rawLines content)"

text \<open>
  The tokens that a loop \<^verbatim>\<open>for scanner.Scan() { ... scanner.Text() ... }\<close> sees, for a
  \<^verbatim>\<open>bufio.Scanner\<close> with its default split function \<^verbatim>\<open>ScanLines\<close> and its default
  buffer. The buffer holds at most \<^verbatim>\<open>bufio.MaxScanTokenSize\<close> bytes, 64 KiB: at a line
  of that many bytes or more before its newline \<^verbatim>\<open>Scan\<close> returns false with the error
  \<^verbatim>\<open>ErrTooLong\<close>. Neither loop of the program looks at \<^verbatim>\<open>scanner.Err()\<close>, so
  the loop ends there as at the end of the file: the tokens are the lines before the first
  line of that length. Read errors of the underlying file are not modelled.
\<close>

definition maxScanTokenSize :: nat where
  "maxScanTokenSize = 65536"

definition scanLines :: "string \<Rightarrow> string list" where
  "scanLines content =
     map dropCR (takeWhile (\<lambda>piece. length piece < maxScanTokenSize) (rawLines content))"

text \<open>A text that the scanner reads to its end: no line has the length of the buffer.\<close>

definition shortLines :: "string \<Rightarrow> bool" where
  "shortLines content = (\<forall>piece\<in>set (rawLines content). length piece < maxScanTokenSize)"

text \<open>\<^verbatim>\<open>fmt.Fprintln(out, line)\<close> for each line in turn: every line is followed by a newline.\<close>

definition printLines :: "string list \<Rightarrow> string" where
  "printLines ls = concat (map (\<lambda>l. l @ [newline]) ls)"

text \<open>
  \<^verbatim>\<open>path.Join\<close> of two elements. For non-empty elements that are already clean, which
  is what the program passes, the result is the two joined by a slash.
\<close>

definition pathJoin :: "string \<Rightarrow> string \<Rightarrow> string" where
  "pathJoin a b = a @ ''/'' @ b"

text \<open>
  A file system as the program observes it: a path is mapped to the bytes of the file
  when the file can be opened and read, and to \<^term>\<open>None\<close> otherwise.
\<close>

type_synonym files = "string \<rightharpoonup> string"

section \<open>Fatal errors (calc.go)\<close>

text \<open>
  \<^verbatim>\<open>fatalMessageIf\<close> and \<^verbatim>\<open>fatalMessageError\<close> log a message and end the process.
  A function that can end this way returns a sum with the fatal error on the left; the constructors are the
  messages of the call sites, with the values they are formatted with.
\<close>

datatype fatal =
    DiskFileUnreadable
  | DiskFileMalformed string
  | HashFileCorrupt string nat
  | FileListFailed
  | HashFileCreateFailed
  | HashFileReadFailed string
  | MergedFileCreateFailed
  | MergedFileWriteFailed
  | OutDirCreateFailed string
  | HashFileOpenFailed string

section \<open>Filter rules (init.go, disk.go)\<close>

text \<open>
  A \<^verbatim>\<open>Filter\<close> of init.go pairs a compiled regular expression with an inclusion flag.
  The only use the program makes of the expression is \<^verbatim>\<open>pattern.MatchString(normPath)\<close>,
  so the compiled expression is modelled by that predicate on strings.
\<close>

record Filter =
  pattern :: "string \<Rightarrow> bool"
  inclusion :: bool

text \<open>
  \<^verbatim>\<open>filterFile\<close> (disk.go): the loop over \<^verbatim>\<open>config.filters\<close> returns from inside the
  first iteration whose pattern matches; after the loop it returns false. The global
  \<^verbatim>\<open>config.filters\<close> is the first argument.
\<close>

fun filterFile :: "Filter list \<Rightarrow> string \<Rightarrow> bool" where
  "filterFile [] normPath = False"
| "filterFile (flt # filters) normPath =
     (if pattern flt normPath then inclusion flt else filterFile filters normPath)"

text \<open>The two rules of the filter precedence example: deny \<^verbatim>\<open>.*\.tmp$\<close>, allow \<^verbatim>\<open>.*\<close>.\<close>

definition rule_deny_tmp :: Filter where
  "rule_deny_tmp = \<lparr>pattern = (\<lambda>p. take 4 (rev p) = ''pmt.''), inclusion = False\<rparr>"

definition rule_allow_all :: Filter where
  "rule_allow_all = \<lparr>pattern = (\<lambda>p. True), inclusion = True\<rparr>"

section \<open>Configuration (init.go)\<close>

text \<open>
  The global \<^verbatim>\<open>config\<close>: the home directory and the filter rules. The output directory
  is \<^verbatim>\<open>out\<close> below the home directory.
\<close>

record Config =
  homeDir :: string
  filters :: "Filter list"

definition outDir :: "Config \<Rightarrow> string" where
  "outDir c = pathJoin (homeDir c) ''out''"

section \<open>Disks (disk.go)\<close>

record DiskInfo =
  index :: nat
  diskId :: string
  rootPath :: string

text \<open>
  \<^verbatim>\<open>regexp.MustCompile("\\A([A-Z]\\d+)").FindStringSubmatch(s)\<close>, reduced to what the
  caller reads of it: \<^term>\<open>None\<close> when there is no match, and the whole match
  \<^verbatim>\<open>match[0]\<close> otherwise. The expression is anchored at the start of the text, wants
  one upper-case letter and then digits, and the repetition is greedy.
\<close>

definition diskIdPattern :: "string \<Rightarrow> string option" where
  "diskIdPattern s =
     (case s of
        [] \<Rightarrow> None
      | c # rest \<Rightarrow>
          if isUpper c \<and> takeWhile isDigit rest \<noteq> [] then Some (c # takeWhile isDigit rest)
          else None)"

text \<open>
  \<^verbatim>\<open>makeDiskInfoList\<close>. \<^verbatim>\<open>os.ReadFile\<close> is the lookup in the file system and
  \<^verbatim>\<open>path.Dir\<close> is the parameter \<open>pathDir\<close>. The accumulator is the slice
  \<^verbatim>\<open>diskInfoList\<close>.
\<close>

fun makeDiskInfoListLoop ::
  "(string \<Rightarrow> string) \<Rightarrow> files \<Rightarrow> string list \<Rightarrow> DiskInfo list \<Rightarrow> fatal + DiskInfo list" where
  "makeDiskInfoListLoop pathDir fs [] diskInfoList = Inr diskInfoList"
| "makeDiskInfoListLoop pathDir fs (diskFile # diskFiles) diskInfoList =
     (case fs diskFile of
        None \<Rightarrow> Inl DiskFileUnreadable
      | Some diskFileData \<Rightarrow>
          (case diskIdPattern diskFileData of
             None \<Rightarrow> Inl (DiskFileMalformed diskFile)
           | Some match0 \<Rightarrow>
               makeDiskInfoListLoop pathDir fs diskFiles
                 (diskInfoList @
                   [\<lparr>index = length diskInfoList, diskId = match0, rootPath = pathDir diskFile\<rparr>])))"

definition makeDiskInfoList ::
  "(string \<Rightarrow> string) \<Rightarrow> files \<Rightarrow> string list \<Rightarrow> fatal + DiskInfo list" where
  "makeDiskInfoList pathDir fs diskFiles = makeDiskInfoListLoop pathDir fs diskFiles []"

definition hashFile :: "Config \<Rightarrow> DiskInfo \<Rightarrow> string" where
  "hashFile c di = pathJoin (outDir c) (diskId di)"

text \<open>
  A stand-in for \<^verbatim>\<open>path.Dir\<close> in the examples: everything before the last slash,
  which is what \<^verbatim>\<open>path.Dir\<close> returns for a clean path with a directory part.
\<close>

definition beforeLastSlash :: "string \<Rightarrow> string" where
  "beforeLastSlash p = rev (tl (dropWhile (\<lambda>c. c \<noteq> CHR ''/'') (rev p)))"

section \<open>Prior fingerprints (disk.go)\<close>

text \<open>
  \<^verbatim>\<open>makeHashMap\<close>. The loop reads the lines of the fingerprint file with a counter
  that starts at 1, splits each at the colons and ends the process unless there are
  exactly two tokens; a later line for the same path overwrites an earlier one. A file
  that cannot be opened gives the empty map.
\<close>

fun makeHashMapLoop ::
  "string \<Rightarrow> string list \<Rightarrow> nat \<Rightarrow> (string \<rightharpoonup> string) \<Rightarrow> fatal + (string \<rightharpoonup> string)" where
  "makeHashMapLoop hashFileName [] i result = Inr result"
| "makeHashMapLoop hashFileName (line # lines) i result =
     (let tokens = splitOn (CHR '':'') line
      in if length tokens \<noteq> 2 then Inl (HashFileCorrupt hashFileName i)
         else makeHashMapLoop hashFileName lines (Suc i) (result(tokens ! 0 \<mapsto> tokens ! 1)))"

definition makeHashMap :: "Config \<Rightarrow> files \<Rightarrow> DiskInfo \<Rightarrow> fatal + (string \<rightharpoonup> string)" where
  "makeHashMap c fs di =
     (case fs (hashFile c di) of
        None \<Rightarrow> Inr Map.empty
      | Some content \<Rightarrow> makeHashMapLoop (hashFile c di) (scanLines content) 1 Map.empty)"

section \<open>Files of a disk (disk.go)\<close>

text \<open>
  The three library functions behind the canonical path are parameters: the separator of
  the platform (\<^verbatim>\<open>filepath.Separator\<close>), \<^verbatim>\<open>filepath.Rel\<close> with its error dropped as
  the code drops it, and \<^verbatim>\<open>norm.NFC.String\<close>.
\<close>

record Platform =
  separator :: char
  rel :: "string \<Rightarrow> string \<Rightarrow> string"
  nfc :: "string \<Rightarrow> string"

text \<open>
  \<^verbatim>\<open>filepath.ToSlash\<close>: the path itself where the separator is the slash, and otherwise
  the path with every separator replaced by a slash.
\<close>

definition ToSlash :: "char \<Rightarrow> string \<Rightarrow> string" where
  "ToSlash sep path =
     (if sep = CHR ''/'' then path else map (\<lambda>c. if c = sep then CHR ''/'' else c) path)"

text \<open>
  \<^verbatim>\<open>FileInfo\<close>; \<open>cachedSize\<close> is the field \<^verbatim>\<open>_size\<close>, where \<open>-1\<close> stands for a size
  that has not been looked up.
\<close>

record FileInfo =
  diskInfo :: DiskInfo
  realPath :: string
  normPath :: string
  cachedSize :: int

text \<open>\<^verbatim>\<open>FileInfo.init\<close> assigns all four fields, so the model builds the value.\<close>

definition init :: "Platform \<Rightarrow> DiskInfo \<Rightarrow> string \<Rightarrow> FileInfo" where
  "init os di rp =
     \<lparr>diskInfo = di, realPath = rp,
      normPath = nfc os (ToSlash (separator os) (rel os (rootPath di) rp)),
      cachedSize = - 1\<rparr>"

text \<open>
  \<^verbatim>\<open>FileInfo.size\<close>, with \<^verbatim>\<open>os.Stat(path).Size()\<close> as the parameter \<open>stat\<close>
  (\<^term>\<open>None\<close> when the call fails). The method has a pointer receiver: it returns the
  size and stores it in the value it is called on, which the second component gives back.
  Its error result is always nil and is left out. \<^verbatim>\<open>uint64(n)\<close> is \<^term>\<open>word_of_int n\<close>.
\<close>

definition fileSize :: "(string \<Rightarrow> int option) \<Rightarrow> FileInfo \<Rightarrow> 64 word \<times> FileInfo" where
  "fileSize stat fi =
     (if cachedSize fi \<noteq> - 1 then (word_of_int (cachedSize fi), fi)
      else (case stat (realPath fi) of
              Some n \<Rightarrow> (word_of_int n, fi\<lparr>cachedSize := n\<rparr>)
            | None \<Rightarrow> (0, fi)))"

text \<open>
  What the file system answers while a disk is listed: the content of a file that can
  be opened and read, the non-directories below a root in the order of
  \<^verbatim>\<open>filepath.WalkDir\<close> (\<^term>\<open>None\<close> when the walk ends with an error), the size that
  \<^verbatim>\<open>os.Stat\<close> reports, whether a file can be created or opened for writing, and whether
  printing to the open file succeeds.
\<close>

record World =
  contents :: files
  walkDir :: "string \<Rightarrow> string list option"
  statSize :: "string \<Rightarrow> int option"
  writable :: "string \<Rightarrow> bool"
  printOk :: "string \<Rightarrow> bool"

text \<open>
  The loop of \<^verbatim>\<open>listFileInfo\<close> over the walked files. The state is the string builder
  \<^verbatim>\<open>trimmedHashs\<close>, the slice \<^verbatim>\<open>fileInfoList\<close> and \<^verbatim>\<open>totalSize\<close>. A file whose
  canonical path is in the prior map adds its old record to the builder and the
  iteration ends there (\<^verbatim>\<open>continue\<close>); only the other files reach \<^verbatim>\<open>filterFile\<close>.
  The value appended to the slice is the one before \<^verbatim>\<open>size\<close> is called on the loop
  variable, as in the source.
\<close>

fun listFileInfoLoop ::
  "Platform \<Rightarrow> Filter list \<Rightarrow> (string \<Rightarrow> int option) \<Rightarrow> DiskInfo \<Rightarrow> (string \<rightharpoonup> string) \<Rightarrow>
   string list \<Rightarrow> string \<times> FileInfo list \<times> 64 word \<Rightarrow> string \<times> FileInfo list \<times> 64 word" where
  "listFileInfoLoop os flts stat di hashMap [] st = st"
| "listFileInfoLoop os flts stat di hashMap (file # files) (trimmedHashs, fileInfoList, totalSize) =
     (let fileInfo = init os di file
      in case hashMap (normPath fileInfo) of
           Some hash \<Rightarrow>
             listFileInfoLoop os flts stat di hashMap files
               (trimmedHashs @ (normPath fileInfo @ '':'' @ hash @ [newline]), fileInfoList, totalSize)
         | None \<Rightarrow>
             if filterFile flts (normPath fileInfo)
             then listFileInfoLoop os flts stat di hashMap files
                    (trimmedHashs, fileInfoList @ [fileInfo],
                     totalSize + fst (fileSize stat fileInfo))
             else listFileInfoLoop os flts stat di hashMap files
                    (trimmedHashs, fileInfoList, totalSize))"

text \<open>
  \<^verbatim>\<open>listFileInfo\<close>: the prior map, the walk (\<^verbatim>\<open>listFiles\<close>), the loop, and then
  \<^verbatim>\<open>ioutil.WriteFile\<close>, which replaces the content of the disk's fingerprint file by the
  builder's. The result is the list of files to hash, their total size and the file
  system after the write.
\<close>

definition listFileInfo ::
  "Platform \<Rightarrow> Config \<Rightarrow> World \<Rightarrow> DiskInfo \<Rightarrow> fatal + (FileInfo list \<times> 64 word \<times> World)" where
  "listFileInfo os c w di =
     (case makeHashMap c (contents w) di of
        Inl e \<Rightarrow> Inl e
      | Inr hashMap \<Rightarrow>
          (case walkDir w (rootPath di) of
             None \<Rightarrow> Inl FileListFailed
           | Some files \<Rightarrow>
               (case listFileInfoLoop os (filters c) (statSize w) di hashMap files ([], [], 0) of
                  (trimmedHashs, fileInfoList, totalSize) \<Rightarrow>
                    if writable w (hashFile c di)
                    then Inr (fileInfoList, totalSize,
                              w\<lparr>contents := (contents w)(hashFile c di \<mapsto> trimmedHashs)\<rparr>)
                    else Inl HashFileCreateFailed)))"

section \<open>Progress (progress.go)\<close>

record ProgressCount =
  total :: "64 word"
  processed :: "64 word"

text \<open>\<^verbatim>\<open>ProgressCount.Increment\<close>: unsigned 64-bit addition, which wraps.\<close>

definition Increment :: "ProgressCount \<Rightarrow> 64 word \<Rightarrow> ProgressCount" where
  "Increment pc n = pc\<lparr>processed := processed pc + n\<rparr>"

text \<open>
  \<^verbatim>\<open>ProgressInfo\<close>; \<open>piDiskInfo\<close> is its field \<^verbatim>\<open>diskInfo\<close>, and the start time is a
  number.
\<close>

record ProgressInfo =
  piDiskInfo :: DiskInfo
  sizeCount :: ProgressCount
  fileCount :: ProgressCount
  processingFile :: string
  startTime :: nat

section \<open>The worker of a disk (hash.go)\<close>

text \<open>
  \<^verbatim>\<open>CompletionMessage\<close>: the id of the disk and whether the error is not nil.
\<close>

record CompletionMessage =
  completedDisk :: string
  failed :: bool

text \<open>
  What the file system answers while one queued file is hashed: whether \<^verbatim>\<open>os.Open\<close>
  succeeds; the results of the successive calls of \<^verbatim>\<open>fileIn.Read\<close>, each the bytes
  that were read and whether the error is neither nil nor \<^verbatim>\<open>io.EOF\<close>, and after the
  last of them a read returns no bytes; what \<^verbatim>\<open>os.Stat\<close> reports when the size is
  asked for after the hash; and whether the line can be printed to the fingerprint file.
  The answers are those of the moment of hashing, which need not be the ones of the
  listing.
\<close>

record HashIO =
  openOk :: bool
  reads :: "(string \<times> bool) list"
  statAfter :: "int option"
  appendOk :: bool

datatype logLine = OpenFailed string | HashFailed string

text \<open>
  The read loop of \<^verbatim>\<open>calcHash\<close>. The hasher is the string of the bytes written to it.
  \<open>pinfo\<close> is the function's own copy of the progress information: the loop adds the
  bytes of every chunk to it and sends it. The result is the hashed bytes, or
  \<^term>\<open>None\<close> for an error, and the snapshots that were sent.
\<close>

fun calcHashLoop ::
  "(string \<times> bool) list \<Rightarrow> string \<Rightarrow> ProgressInfo \<Rightarrow> string option \<times> ProgressInfo list" where
  "calcHashLoop [] hasher pinfo = (Some hasher, [])"
| "calcHashLoop ((buffer, err) # rs) hasher pinfo =
     (if buffer = [] then (Some hasher, [])
      else if err then (None, [])
      else (let pinfo' = pinfo\<lparr>sizeCount := Increment (sizeCount pinfo) (of_nat (length buffer))\<rparr>
            in case calcHashLoop rs (hasher @ buffer) pinfo' of
                 (r, snaps) \<Rightarrow> (r, pinfo' # snaps)))"

text \<open>
  \<^verbatim>\<open>calcHash\<close>: a file that cannot be opened is logged and gives the error; otherwise
  the loop runs on the copy with the file's name in it. The result has the log lines
  and the snapshots sent as well.
\<close>

definition calcHash ::
  "string \<Rightarrow> ProgressInfo \<Rightarrow> HashIO \<Rightarrow> string option \<times> logLine list \<times> ProgressInfo list" where
  "calcHash file pinfo io =
     (if \<not> openOk io then (None, [OpenFailed file], [])
      else (case calcHashLoop (reads io) [] (pinfo\<lparr>processingFile := file\<rparr>) of
              (r, snaps) \<Rightarrow> (r, [], snaps)))"

text \<open>
  The state of \<^verbatim>\<open>hashRoutine\<close>: its progress information, the snapshots it has sent
  on the progress channel, oldest first, the bytes of the fingerprint file as the
  appending handle \<^verbatim>\<open>hashFileOut\<close> leaves them, and the log.
\<close>

record Worker =
  progressInfo :: ProgressInfo
  sent :: "ProgressInfo list"
  hashFileOut :: string
  logf :: "logLine list"

text \<open>
  The loop of \<^verbatim>\<open>hashRoutine\<close> over the queued files. After \<^verbatim>\<open>calcHash\<close> the two
  counters advance, by one and by what \<^verbatim>\<open>fi.size()\<close> returns, before the error is
  looked at. An error of \<^verbatim>\<open>calcHash\<close> is logged and the loop continues; a line that
  cannot be printed ends the routine with a completion message that carries the error.
  \<open>md5hex\<close> is the MD5 digest of the bytes in lower-case hexadecimal, and \<open>io\<close> gives
  the answers of the file system for a real path.
\<close>

fun hashLoop ::
  "(string \<Rightarrow> string) \<Rightarrow> (string \<Rightarrow> HashIO) \<Rightarrow> DiskInfo \<Rightarrow> FileInfo list \<Rightarrow> Worker \<Rightarrow>
   Worker \<times> CompletionMessage option" where
  "hashLoop md5hex io di [] wk = (wk, None)"
| "hashLoop md5hex io di (fi # fileInfoList) wk =
     (case calcHash (realPath fi) (progressInfo wk) (io (realPath fi)) of
        (hash, logs, snaps) \<Rightarrow>
          (let pinfo1 = (progressInfo wk)\<lparr>fileCount := Increment (fileCount (progressInfo wk)) 1\<rparr>;
               size = fst (fileSize (\<lambda>p. statAfter (io p)) fi);
               pinfo2 = pinfo1\<lparr>sizeCount := Increment (sizeCount pinfo1) size\<rparr>;
               wk1 = wk\<lparr>progressInfo := pinfo2, sent := sent wk @ snaps, logf := logf wk @ logs\<rparr>
           in case hash of
                None \<Rightarrow>
                  hashLoop md5hex io di fileInfoList
                    (wk1\<lparr>logf := logf wk1 @ [HashFailed (realPath fi)]\<rparr>)
              | Some bytes \<Rightarrow>
                  if appendOk (io (realPath fi))
                  then hashLoop md5hex io di fileInfoList
                         (wk1\<lparr>hashFileOut :=
                            hashFileOut wk1 @ (normPath fi @ '':'' @ md5hex bytes @ [newline])\<rparr>)
                  else (wk1, Some \<lparr>completedDisk = diskId di, failed = True\<rparr>)))"

text \<open>
  \<^verbatim>\<open>hashRoutine\<close>: the output directory and the appending handle, the listing, the
  first snapshot, the loop, and the last snapshot and the completion message. Opening the
  handle creates a missing fingerprint file as an empty one, which \<^verbatim>\<open>makeHashMap\<close> reads
  like a missing one. \<open>w\<close> is the file system at the listing and \<open>io\<close> the one at
  the hashing.
\<close>

definition hashRoutine ::
  "Platform \<Rightarrow> Config \<Rightarrow> (string \<Rightarrow> string) \<Rightarrow> nat \<Rightarrow> World \<Rightarrow> (string \<Rightarrow> HashIO) \<Rightarrow> DiskInfo \<Rightarrow>
   fatal + (Worker \<times> CompletionMessage)" where
  "hashRoutine os c md5hex now w io di =
     (if \<not> writable w (outDir c) then Inl (OutDirCreateFailed (outDir c))
      else if \<not> writable w (hashFile c di) then Inl (HashFileOpenFailed (hashFile c di))
      else (case listFileInfo os c w di of
              Inl e \<Rightarrow> Inl e
            | Inr (fileInfoList, totalSize, w1) \<Rightarrow>
                (let progressInfo0 =
                       \<lparr>piDiskInfo = di,
                        sizeCount = \<lparr>total = totalSize, processed = 0\<rparr>,
                        fileCount = \<lparr>total = of_nat (length fileInfoList), processed = 0\<rparr>,
                        processingFile = [], startTime = now\<rparr>;
                     wk0 = \<lparr>progressInfo = progressInfo0, sent = [progressInfo0],
                            hashFileOut = (case contents w1 (hashFile c di) of None \<Rightarrow> [] | Some x \<Rightarrow> x),
                            logf = []\<rparr>
                 in case hashLoop md5hex io di fileInfoList wk0 of
                      (wk, Some completion) \<Rightarrow> Inr (wk, completion)
                    | (wk, None) \<Rightarrow>
                        Inr (wk\<lparr>sent := sent wk @ [progressInfo wk]\<rparr>,
                             \<lparr>completedDisk = diskId di, failed = False\<rparr>))))"

text \<open>
  For the statements about progress: the bytes of a file that \<^verbatim>\<open>calcHash\<close> counts, the
  size that the routine adds for a file, the two processed counters of a snapshot as
  numbers, and a list of snapshots in which neither counter decreases.
\<close>

fun bytesCounted :: "(string \<times> bool) list \<Rightarrow> nat" where
  "bytesCounted [] = 0"
| "bytesCounted ((buffer, err) # rs) =
     (if buffer = [] \<or> err then 0 else length buffer + bytesCounted rs)"

definition sizeAtHash :: "(string \<Rightarrow> HashIO) \<Rightarrow> FileInfo \<Rightarrow> 64 word" where
  "sizeAtHash io fi = fst (fileSize (\<lambda>p. statAfter (io p)) fi)"

definition bytesDone :: "ProgressInfo \<Rightarrow> nat" where
  "bytesDone p = unat (processed (sizeCount p))"

definition filesDone :: "ProgressInfo \<Rightarrow> nat" where
  "filesDone p = unat (processed (fileCount p))"

definition nondecreasing :: "ProgressInfo list \<Rightarrow> bool" where
  "nondecreasing ps = (sorted (map bytesDone ps) \<and> sorted (map filesDone ps))"

section \<open>Merging the fingerprint files (calc.go)\<close>

text \<open>
  \<^verbatim>\<open>regexp.MustCompile("^([A-Z])\\d+$").FindStringSubmatch(fileName)\<close>, reduced to what
  the caller reads of it: \<^term>\<open>None\<close> when there is no match and the first group
  \<^verbatim>\<open>subMatches[1]\<close>, the letter, otherwise. Without the multi-line flag \<^verbatim>\<open>^\<close> and
  \<^verbatim>\<open>$\<close> are the two ends of the text: the whole name is one upper-case letter followed
  by one or more digits.
\<close>

definition hashFilePattern :: "string \<Rightarrow> string option" where
  "hashFilePattern fileName =
     (case fileName of
        [] \<Rightarrow> None
      | c # ds \<Rightarrow> if isUpper c \<and> ds \<noteq> [] \<and> list_all isDigit ds then Some [c] else None)"

text \<open>
  The first loop of \<^verbatim>\<open>executeHashFileIntegration\<close>. The result of \<^verbatim>\<open>filepath.Glob\<close>
  is given by the names in the output directory: an output file is the join of the
  output directory and a name, and \<^verbatim>\<open>filepath.Base\<close> of it is the name. The Go map
  \<^verbatim>\<open>mergedHashMap\<close> is an association list with one entry for a key, in the order of
  first insertion. Empty lines of a file are left out.
\<close>

fun collectHashes ::
  "Config \<Rightarrow> files \<Rightarrow> string list \<Rightarrow> (string \<times> string list) list \<Rightarrow>
   fatal + (string \<times> string list) list" where
  "collectHashes c fs [] mergedHashMap = Inr mergedHashMap"
| "collectHashes c fs (fileName # outputNames) mergedHashMap =
     (case hashFilePattern fileName of
        None \<Rightarrow> collectHashes c fs outputNames mergedHashMap
      | Some grp \<Rightarrow>
          (let mergedHashes = (case map_of mergedHashMap grp of None \<Rightarrow> [] | Some ls \<Rightarrow> ls);
               outputFile = pathJoin (outDir c) fileName
           in case fs outputFile of
                None \<Rightarrow> Inl (HashFileReadFailed outputFile)
              | Some content \<Rightarrow>
                  collectHashes c fs outputNames
                    (AList.update grp
                       (mergedHashes @ filter (\<lambda>line. line \<noteq> []) (scanLines content))
                       mergedHashMap)))"

text \<open>
  The second loop: every group's lines are sorted with \<^verbatim>\<open>sort.Strings\<close> and printed,
  one per line, to the file named after the group, which is opened with
  \<^verbatim>\<open>O_CREATE|O_WRONLY|O_TRUNC\<close>. Go ranges over its map in an unspecified order; the
  groups write to different files, and the model takes the order of the list.
\<close>

fun writeMerged ::
  "Config \<Rightarrow> World \<Rightarrow> (string \<times> string list) list \<Rightarrow> files \<Rightarrow> fatal + files" where
  "writeMerged c w [] fs = Inr fs"
| "writeMerged c w ((grp, mergedHashes) # mergedHashMap) fs =
     (let mergedHashFile = pathJoin (outDir c) grp
      in if \<not> writable w mergedHashFile then Inl MergedFileCreateFailed
         else if mergedHashes \<noteq> [] \<and> \<not> printOk w mergedHashFile then Inl MergedFileWriteFailed
         else writeMerged c w mergedHashMap (fs(mergedHashFile \<mapsto> printLines (sort mergedHashes))))"

definition executeHashFileIntegration :: "Config \<Rightarrow> World \<Rightarrow> string list \<Rightarrow> fatal + files" where
  "executeHashFileIntegration c w outputNames =
     (case collectHashes c (contents w) outputNames [] of
        Inl e \<Rightarrow> Inl e
      | Inr mergedHashMap \<Rightarrow> writeMerged c w mergedHashMap (contents w))"

text \<open>
  The lines that the first loop collects for a group: the non-empty tokens of the
  scanner over the group's fingerprint files, one file after the other.
\<close>

definition scannedLines :: "Config \<Rightarrow> files \<Rightarrow> string list \<Rightarrow> string \<Rightarrow> string list" where
  "scannedLines c fs outputNames grp =
     concat (map (\<lambda>n. case fs (pathJoin (outDir c) n) of
                         None \<Rightarrow> []
                       | Some content \<Rightarrow> filter (\<lambda>line. line \<noteq> []) (scanLines content))
              (filter (\<lambda>n. hashFilePattern n = Some grp) outputNames))"

text \<open>
  In the words of the specification: the lines of a group are the lines of all
  fingerprint files of the group, one file after the other; here without the empty ones.
\<close>

definition groupLines :: "Config \<Rightarrow> files \<Rightarrow> string list \<Rightarrow> string \<Rightarrow> string list" where
  "groupLines c fs outputNames grp =
     concat (map (\<lambda>n. case fs (pathJoin (outDir c) n) of
                         None \<Rightarrow> []
                       | Some content \<Rightarrow> filter (\<lambda>line. line \<noteq> []) (fileLines content))
              (filter (\<lambda>n. hashFilePattern n = Some grp) outputNames))"

section \<open>Example inputs\<close>

definition example_config :: Config where
  "example_config = \<lparr>homeDir = ''/home/bcbc'', filters = [rule_deny_tmp, rule_allow_all]\<rparr>"

definition example_disk :: DiskInfo where
  "example_disk = \<lparr>index = 0, diskId = ''A1'', rootPath = ''/mnt/a1''\<rparr>"

definition example_markers :: files where
  "example_markers =
     map_of [(''/mnt/d/disk'', ''B12x''), (''/mnt/e/disk'', ''A7'' @ [newline]),
             (''/mnt/f/disk'', ''AB1'')]"

definition example_corrupt :: string where
  "example_corrupt = ''a:1'' @ [newline] @ ''b'' @ [newline] @ ''c:2:3'' @ [newline]"

text \<open>
  A line of 65536 bytes without a colon, and a fingerprint file with a record, that line
  and a second line without a colon.
\<close>

definition example_long_line :: string where
  "example_long_line = replicate 65536 (CHR ''x'')"

definition example_long_corrupt :: string where
  "example_long_corrupt = ''a:1'' @ [newline] @ example_long_line @ [newline] @ ''b'' @ [newline]"

text \<open>
  A relative path \<open>x\<close> written with slashes, as a platform with separator \<open>sep\<close>
  writes it (\<^verbatim>\<open>filepath.FromSlash\<close>). Two paths differ only in separator style when they
  are the same slash path written on two platforms.
\<close>

definition FromSlash :: "char \<Rightarrow> string \<Rightarrow> string" where
  "FromSlash sep path =
     (if sep = CHR ''/'' then path else map (\<lambda>c. if c = CHR ''/'' then sep else c) path)"

text \<open>
  A fragment of NFC for the examples: the letter e followed by the combining acute
  accent (bytes CC 81 in UTF-8) is composed into the single code point (bytes C3 A9);
  everything else is kept.
\<close>

fun example_nfc :: "string \<Rightarrow> string" where
  "example_nfc (a # b # c # rest) =
     (if a = CHR ''e'' \<and> b = CHR 0xCC \<and> c = CHR 0x81 then CHR 0xC3 # CHR 0xA9 # example_nfc rest
      else a # example_nfc (b # c # rest))"
| "example_nfc s = s"

definition example_unix :: Platform where
  "example_unix =
     \<lparr>separator = CHR ''/'', rel = (\<lambda>root p. drop (length root + 1) p), nfc = example_nfc\<rparr>"

definition example_windows :: Platform where
  "example_windows =
     \<lparr>separator = CHR 0x5C, rel = (\<lambda>root p. drop (length root + 1) p), nfc = example_nfc\<rparr>"

definition example_windows_disk :: DiskInfo where
  "example_windows_disk = \<lparr>index = 0, diskId = ''A1'', rootPath = ''D:''\<rparr>"

definition example_prior :: string where
  "example_prior =
     ''a.txt:111'' @ [newline] @ ''gone.txt:222'' @ [newline] @ ''c.tmp:333'' @ [newline]"

definition example_world :: World where
  "example_world =
     \<lparr>contents = map_of [(''/home/bcbc/out/A1'', example_prior)],
      walkDir = map_of [(''/mnt/a1'',
        [''/mnt/a1/a.txt'', ''/mnt/a1/b.txt'', ''/mnt/a1/c.tmp'', ''/mnt/a1/d.tmp''])],
      statSize = map_of [(''/mnt/a1/a.txt'', 7), (''/mnt/a1/b.txt'', 5), (''/mnt/a1/c.tmp'', 3),
        (''/mnt/a1/d.tmp'', 2)],
      writable = (\<lambda>p. True), printOk = (\<lambda>p. True)\<rparr>"

text \<open>
  The same file below two disk roots: on the first platform with slashes and the accent
  decomposed, on the second with backslashes and the accent composed.
\<close>

definition example_unix_path :: string where
  "example_unix_path = ''/mnt/a1/dir/caf'' @ [CHR ''e'', CHR 0xCC, CHR 0x81] @ ''.txt''"

definition example_windows_path :: string where
  "example_windows_path =
     ''D:'' @ [CHR 0x5C] @ ''dir'' @ [CHR 0x5C] @ ''caf'' @ [CHR 0xC3, CHR 0xA9] @ ''.txt''"

text \<open>An output directory with the fingerprint files of two disks of group A.\<close>

definition example_A1 :: string where
  "example_A1 = ''x:111'' @ [newline]"

definition example_A2 :: string where
  "example_A2 = ''y:222'' @ [newline]"

definition example_out :: World where
  "example_out =
     \<lparr>contents = map_of [(''/home/bcbc/out/A1'', example_A1),
                         (''/home/bcbc/out/A2'', example_A2),
                         (''/home/bcbc/out/notes.txt'', ''z:333'')],
      walkDir = (\<lambda>p. None), statSize = (\<lambda>p. None),
      writable = (\<lambda>p. True), printOk = (\<lambda>p. True)\<rparr>"

text \<open>A fingerprint file with an empty line between two records.\<close>

definition example_blank :: string where
  "example_blank = ''x:111'' @ [newline] @ [newline] @ ''y:222'' @ [newline]"

definition example_out_blank :: World where
  "example_out_blank =
     \<lparr>contents = map_of [(''/home/bcbc/out/A1'', example_blank)],
      walkDir = (\<lambda>p. None), statSize = (\<lambda>p. None),
      writable = (\<lambda>p. True), printOk = (\<lambda>p. True)\<rparr>"

text \<open>
  Three answers of the file system at the hashing of the one queued file of the example
  disk, which had 5 bytes at the listing: the file is read in two chunks and has its 5
  bytes; the file gives 8 bytes and is 5 bytes long when its size is asked for after the
  hash; the file is gone, so that neither \<^verbatim>\<open>os.Open\<close> nor \<^verbatim>\<open>os.Stat\<close> succeeds. The
  digest function of the examples is a stand-in.
\<close>

definition example_md5hex :: "string \<Rightarrow> string" where
  "example_md5hex bytes = ''5d41402abc4b2a76b9719d911017c592''"

definition example_io_complete :: "string \<Rightarrow> HashIO" where
  "example_io_complete p =
     \<lparr>openOk = True, reads = [(''hel'', False), (''lo'', False)], statAfter = Some 5,
      appendOk = True\<rparr>"

definition example_io_shrunk :: "string \<Rightarrow> HashIO" where
  "example_io_shrunk p =
     \<lparr>openOk = True, reads = [(''hello!!!'', False)], statAfter = Some 5, appendOk = True\<rparr>"

definition example_io_gone :: "string \<Rightarrow> HashIO" where
  "example_io_gone p = \<lparr>openOk = False, reads = [], statAfter = None, appendOk = True\<rparr>"

text \<open>The snapshots that a run of the routine has sent; none for a run that ended fatally.\<close>

definition sentSnapshots :: "fatal + (Worker \<times> CompletionMessage) \<Rightarrow> ProgressInfo list" where
  "sentSnapshots r = (case r of Inl e \<Rightarrow> [] | Inr (wk, completion) \<Rightarrow> sent wk)"

section \<open>Properties\<close>

subsection \<open>Filter evaluation\<close>

lemma filterFile_no_match:
  "\<forall>g\<in>set pre. \<not> pattern g p \<Longrightarrow> filterFile (pre @ rest) p = filterFile rest p"
  by (induction pre) auto

text \<open>
  Claim C4. For every canonical path and every ordered rule list, \<^verbatim>\<open>filterFile\<close> returns
  the inclusion flag of the first rule whose pattern matches the path, whatever rules
  follow it; it returns false when no rule matches, and so for the empty rule list.
\<close>

theorem filterFile_first_match:
  assumes "\<forall>g\<in>set pre. \<not> pattern g p"
  shows "(pattern f p \<longrightarrow> filterFile (pre @ f # post) p = inclusion f)
    \<and> filterFile pre p = False
    \<and> filterFile [] p = False"
proof -
  from assms have "filterFile (pre @ f # post) p = filterFile (f # post) p"
    by (rule filterFile_no_match)
  moreover from assms have "filterFile (pre @ []) p = filterFile [] p"
    by (rule filterFile_no_match)
  ultimately show ?thesis by simp
qed

theorem filterFile_first_match_witness:
  "filterFile [rule_deny_tmp, rule_allow_all, rule_deny_tmp] ''a.txt'' = True
   \<and> filterFile [rule_deny_tmp] ''a.txt'' = False
   \<and> filterFile [rule_deny_tmp, rule_allow_all] ''a.tmp'' = False"
proof -
  have h: "\<forall>g\<in>set [rule_deny_tmp]. \<not> pattern g ''a.txt''"
    by (simp add: rule_deny_tmp_def)
  have m: "pattern rule_allow_all ''a.txt''"
    by (simp add: rule_allow_all_def)
  have "filterFile [rule_deny_tmp, rule_allow_all] ''a.tmp'' = False"
    by (simp add: rule_deny_tmp_def)
  with filterFile_first_match [OF h, of rule_allow_all "[rule_deny_tmp]"] m
  show ?thesis by (simp add: rule_allow_all_def)
qed

subsection \<open>Disk markers\<close>

lemma takeWhile_digits_append:
  "\<forall>d\<in>set ds. P d \<Longrightarrow> rest = [] \<or> \<not> P (hd rest) \<Longrightarrow> takeWhile P (ds @ rest) = ds"
  by (cases rest) (auto simp: takeWhile_append2)

lemma diskIdPattern_iff:
  "diskIdPattern s = Some i \<longleftrightarrow>
     (\<exists>c ds rest. s = c # ds @ rest \<and> isUpper c \<and> ds \<noteq> [] \<and> (\<forall>d\<in>set ds. isDigit d)
        \<and> (rest = [] \<or> \<not> isDigit (hd rest)) \<and> i = c # ds)"
proof
  assume a: "diskIdPattern s = Some i"
  then obtain c rest0 where s: "s = c # rest0"
    by (cases s) (auto simp: diskIdPattern_def)
  let ?ds = "takeWhile isDigit rest0"
  let ?rest = "dropWhile isDigit rest0"
  from a s have u: "isUpper c" and ne: "?ds \<noteq> []" and i: "i = c # ?ds"
    by (auto simp: diskIdPattern_def split: if_splits)
  have "s = c # ?ds @ ?rest" using s by simp
  moreover have "\<forall>d\<in>set ?ds. isDigit d" by (auto dest: set_takeWhileD)
  moreover have "?rest = [] \<or> \<not> isDigit (hd ?rest)"
    by (metis hd_dropWhile)
  ultimately show "\<exists>c ds rest. s = c # ds @ rest \<and> isUpper c \<and> ds \<noteq> [] \<and> (\<forall>d\<in>set ds. isDigit d)
        \<and> (rest = [] \<or> \<not> isDigit (hd rest)) \<and> i = c # ds"
    using u ne i by blast
next
  assume "\<exists>c ds rest. s = c # ds @ rest \<and> isUpper c \<and> ds \<noteq> [] \<and> (\<forall>d\<in>set ds. isDigit d)
        \<and> (rest = [] \<or> \<not> isDigit (hd rest)) \<and> i = c # ds"
  then obtain c ds rest where s: "s = c # ds @ rest" and u: "isUpper c" and ne: "ds \<noteq> []"
    and d: "\<forall>d\<in>set ds. isDigit d" and r: "rest = [] \<or> \<not> isDigit (hd rest)" and i: "i = c # ds"
    by blast
  from d r have "takeWhile isDigit (ds @ rest) = ds" by (rule takeWhile_digits_append)
  with s u ne i show "diskIdPattern s = Some i"
    by (simp add: diskIdPattern_def)
qed

lemma makeDiskInfoListLoop_Inr_iff:
  "makeDiskInfoListLoop pathDir fs dfs acc = Inr ds \<longleftrightarrow>
     (\<exists>ds'. ds = acc @ ds' \<and> length ds' = length dfs \<and>
        (\<forall>k<length dfs. \<exists>data i. fs (dfs ! k) = Some data \<and> diskIdPattern data = Some i \<and>
           ds' ! k = \<lparr>index = length acc + k, diskId = i, rootPath = pathDir (dfs ! k)\<rparr>))"
proof (induction dfs arbitrary: acc ds)
  case Nil
  then show ?case by auto
next
  case (Cons f dfs)
  show ?case
  proof (cases "fs f")
    case None
    then show ?thesis by (auto dest: spec [of _ 0])
  next
    case (Some data)
    show ?thesis
    proof (cases "diskIdPattern data")
      case None
      with Some show ?thesis by (auto dest: spec [of _ 0])
    next
      case (Some i)
      let ?d = "\<lparr>index = length acc, diskId = i, rootPath = pathDir f\<rparr>"
      have step: "makeDiskInfoListLoop pathDir fs (f # dfs) acc =
        makeDiskInfoListLoop pathDir fs dfs (acc @ [?d])"
        using \<open>fs f = Some data\<close> Some by simp
      show ?thesis
      proof
        assume "makeDiskInfoListLoop pathDir fs (f # dfs) acc = Inr ds"
        with step Cons.IH [of "acc @ [?d]" ds]
        obtain ds'' where ds: "ds = (acc @ [?d]) @ ds''" and len: "length ds'' = length dfs"
          and el: "\<forall>k<length dfs. \<exists>data i. fs (dfs ! k) = Some data \<and> diskIdPattern data = Some i \<and>
             ds'' ! k = \<lparr>index = length (acc @ [?d]) + k, diskId = i, rootPath = pathDir (dfs ! k)\<rparr>"
          by auto
        have "\<forall>k<length (f # dfs). \<exists>data i. fs ((f # dfs) ! k) = Some data \<and> diskIdPattern data = Some i \<and>
           (?d # ds'') ! k = \<lparr>index = length acc + k, diskId = i, rootPath = pathDir ((f # dfs) ! k)\<rparr>"
        proof (intro allI impI)
          fix k assume "k < length (f # dfs)"
          then show "\<exists>data i. fs ((f # dfs) ! k) = Some data \<and> diskIdPattern data = Some i \<and>
           (?d # ds'') ! k = \<lparr>index = length acc + k, diskId = i, rootPath = pathDir ((f # dfs) ! k)\<rparr>"
            using el \<open>fs f = Some data\<close> Some by (cases k) auto
        qed
        with ds len show "\<exists>ds'. ds = acc @ ds' \<and> length ds' = length (f # dfs) \<and>
        (\<forall>k<length (f # dfs). \<exists>data i. fs ((f # dfs) ! k) = Some data \<and> diskIdPattern data = Some i \<and>
           ds' ! k = \<lparr>index = length acc + k, diskId = i, rootPath = pathDir ((f # dfs) ! k)\<rparr>)"
          by (intro exI [of _ "?d # ds''"]) simp
      next
        assume "\<exists>ds'. ds = acc @ ds' \<and> length ds' = length (f # dfs) \<and>
        (\<forall>k<length (f # dfs). \<exists>data i. fs ((f # dfs) ! k) = Some data \<and> diskIdPattern data = Some i \<and>
           ds' ! k = \<lparr>index = length acc + k, diskId = i, rootPath = pathDir ((f # dfs) ! k)\<rparr>)"
        then obtain ds' where ds: "ds = acc @ ds'" and len: "length ds' = length (f # dfs)"
          and el: "\<forall>k<length (f # dfs). \<exists>data i. fs ((f # dfs) ! k) = Some data \<and> diskIdPattern data = Some i \<and>
           ds' ! k = \<lparr>index = length acc + k, diskId = i, rootPath = pathDir ((f # dfs) ! k)\<rparr>"
          by blast
        from len obtain d' ds'' where ds': "ds' = d' # ds''" and len'': "length ds'' = length dfs"
          by (cases ds') auto
        from el [rule_format, of 0] ds' \<open>fs f = Some data\<close> Some have d': "d' = ?d" by auto
        have "\<forall>k<length dfs. \<exists>data i. fs (dfs ! k) = Some data \<and> diskIdPattern data = Some i \<and>
             ds'' ! k = \<lparr>index = length (acc @ [?d]) + k, diskId = i, rootPath = pathDir (dfs ! k)\<rparr>"
        proof (intro allI impI)
          fix k assume "k < length dfs"
          with el [rule_format, of "Suc k"] ds'
          show "\<exists>data i. fs (dfs ! k) = Some data \<and> diskIdPattern data = Some i \<and>
             ds'' ! k = \<lparr>index = length (acc @ [?d]) + k, diskId = i, rootPath = pathDir (dfs ! k)\<rparr>"
            by auto
        qed
        with ds ds' d' len'' have "makeDiskInfoListLoop pathDir fs dfs (acc @ [?d]) = Inr ds"
          using Cons.IH [of "acc @ [?d]" ds] by auto
        with step show "makeDiskInfoListLoop pathDir fs (f # dfs) acc = Inr ds" by simp
      qed
    qed
  qed
qed

text \<open>
  Claim C2, as amended. \<^verbatim>\<open>makeDiskInfoList\<close> returns a list of disks exactly when every
  marker file can be read and its content starts with one upper-case letter followed by
  one or more digits; the disk id is that letter with the longest run of digits after
  it, the index is the position and the root is the directory of the marker. In every
  other case the process ends with a fatal error.
\<close>

theorem makeDiskInfoList_one_letter:
  "makeDiskInfoList pathDir fs diskFiles = Inr ds \<longleftrightarrow>
     (length ds = length diskFiles \<and>
      (\<forall>k<length diskFiles. \<exists>c digits rest.
          fs (diskFiles ! k) = Some (c # digits @ rest) \<and> isUpper c \<and> digits \<noteq> [] \<and>
          (\<forall>d\<in>set digits. isDigit d) \<and> (rest = [] \<or> \<not> isDigit (hd rest)) \<and>
          ds ! k = \<lparr>index = k, diskId = c # digits, rootPath = pathDir (diskFiles ! k)\<rparr>))"
  unfolding makeDiskInfoList_def makeDiskInfoListLoop_Inr_iff diskIdPattern_iff
  by (auto; metis)

theorem makeDiskInfoList_one_letter_witness:
  "makeDiskInfoList beforeLastSlash example_markers [''/mnt/d/disk'', ''/mnt/e/disk'']
    = Inr [\<lparr>index = 0, diskId = ''B12'', rootPath = ''/mnt/d''\<rparr>,
           \<lparr>index = 1, diskId = ''A7'', rootPath = ''/mnt/e''\<rparr>]
   \<and> (\<exists>c digits rest. ''B12x'' = c # digits @ rest \<and> isUpper c \<and> digits \<noteq> [] \<and>
          ''B12'' = c # digits)"
proof -
  let ?ds = "[\<lparr>index = 0, diskId = ''B12'', rootPath = ''/mnt/d''\<rparr>,
           \<lparr>index = 1, diskId = ''A7'', rootPath = ''/mnt/e''\<rparr>]"
  have e: "makeDiskInfoList beforeLastSlash example_markers [''/mnt/d/disk'', ''/mnt/e/disk'']
      = Inr ?ds"
    by (simp add: makeDiskInfoList_def diskIdPattern_def isUpper_def isDigit_def
        beforeLastSlash_def newline_def example_markers_def)
  from makeDiskInfoList_one_letter [THEN iffD1, OF e, THEN conjunct2, rule_format, of 0]
  obtain c digits rest where
    "example_markers ''/mnt/d/disk'' = Some (c # digits @ rest)" "isUpper c" "digits \<noteq> []"
    "?ds ! 0 = \<lparr>index = 0, diskId = c # digits, rootPath = beforeLastSlash ''/mnt/d/disk''\<rparr>"
    by auto
  then have "''B12x'' = c # digits @ rest \<and> isUpper c \<and> digits \<noteq> [] \<and> ''B12'' = c # digits"
    by (simp add: example_markers_def)
  with e show ?thesis by blast
qed

text \<open>
  Claim C2 as stated fails: a marker that starts with the two letters \<^verbatim>\<open>AB1\<close> is
  not accepted with the id \<^verbatim>\<open>AB1\<close>; the process ends with the fatal error for a
  malformed marker.
\<close>

theorem makeDiskInfoList_two_letters_counterexample:
  "makeDiskInfoList beforeLastSlash example_markers [''/mnt/f/disk'']
     = Inl (DiskFileMalformed ''/mnt/f/disk'')"
  by (simp add: makeDiskInfoList_def diskIdPattern_def isUpper_def isDigit_def
      example_markers_def)

subsection \<open>Corrupt fingerprint files\<close>

lemma splitOn_nonempty: "splitOn sep s \<noteq> []"
  by (induction s) (auto split: list.splits)

lemma length_splitOn: "length (splitOn sep s) = Suc (count_list s sep)"
  by (induction s) (auto simp: splitOn_nonempty split: list.splits)

lemma makeHashMapLoop_first_bad:
  "\<exists>l\<in>set lines. count_list l (CHR '':'') \<noteq> 1 \<Longrightarrow>
   \<exists>j<length lines. count_list (lines ! j) (CHR '':'') \<noteq> 1 \<and>
     (\<forall>k<j. count_list (lines ! k) (CHR '':'') = 1) \<and>
     makeHashMapLoop hf lines i r = Inl (HashFileCorrupt hf (i + j))"
proof (induction lines arbitrary: i r)
  case Nil
  then show ?case by simp
next
  case (Cons line lines)
  show ?case
  proof (cases "count_list line (CHR '':'') = 1")
    case False
    then have "makeHashMapLoop hf (line # lines) i r = Inl (HashFileCorrupt hf (i + 0))"
      by (simp add: length_splitOn Let_def)
    with False show ?thesis by (intro exI [of _ 0]) simp
  next
    case True
    with Cons.prems have "\<exists>l\<in>set lines. count_list l (CHR '':'') \<noteq> 1" by auto
    from Cons.IH [OF this, of "Suc i" "r(splitOn (CHR '':'') line ! 0 \<mapsto> splitOn (CHR '':'') line ! 1)"]
    obtain j where j: "j < length lines" "count_list (lines ! j) (CHR '':'') \<noteq> 1"
      "\<forall>k<j. count_list (lines ! k) (CHR '':'') = 1"
      "makeHashMapLoop hf lines (Suc i) (r(splitOn (CHR '':'') line ! 0 \<mapsto> splitOn (CHR '':'') line ! 1))
        = Inl (HashFileCorrupt hf (Suc i + j))"
      by blast
    have "\<forall>k<Suc j. count_list ((line # lines) ! k) (CHR '':'') = 1"
      using True j(3) by (auto simp: less_Suc_eq_0_disj)
    moreover have "makeHashMapLoop hf (line # lines) i r = Inl (HashFileCorrupt hf (i + Suc j))"
      using True j(4) by (simp add: length_splitOn Let_def)
    ultimately show ?thesis using j(1,2) by (intro exI [of _ "Suc j"]) simp
  qed
qed

lemma makeHashMapLoop_all_good:
  "\<forall>l\<in>set lines. count_list l (CHR '':'') = 1 \<Longrightarrow> \<exists>m. makeHashMapLoop hf lines i r = Inr m"
  by (induction lines arbitrary: i r) (auto simp: length_splitOn Let_def)


text \<open>
  For the lines that the scanner yields: when the fingerprint file can be opened and one
  of these lines does not have exactly one colon, \<^verbatim>\<open>makeHashMap\<close> ends the process
  with the fatal error that names the fingerprint file and the number, counted from 1, of
  the first such line.
\<close>

lemma makeHashMap_corrupt_token_fatal:
  assumes "fs (hashFile c di) = Some content"
    and "\<exists>l\<in>set (scanLines content). count_list l (CHR '':'') \<noteq> 1"
  shows "\<exists>j<length (scanLines content).
           count_list (scanLines content ! j) (CHR '':'') \<noteq> 1 \<and>
           (\<forall>k<j. count_list (scanLines content ! k) (CHR '':'') = 1) \<and>
           makeHashMap c fs di = Inl (HashFileCorrupt (hashFile c di) (Suc j))"
  using makeHashMapLoop_first_bad [OF assms(2), of "hashFile c di" 1 Map.empty] assms(1)
  by (simp add: makeHashMap_def)

lemma makeHashMap_corrupt_example:
  "scanLines example_corrupt = [''a:1'', ''b'', ''c:2:3'']
   \<and> makeHashMap example_config (map_of [(''/home/bcbc/out/A1'', example_corrupt)]) example_disk
      = Inl (HashFileCorrupt ''/home/bcbc/out/A1'' 2)"
proof -
  have hf: "hashFile example_config example_disk = ''/home/bcbc/out/A1''"
    by (simp add: hashFile_def outDir_def pathJoin_def example_config_def example_disk_def)
  have ls: "scanLines example_corrupt = [''a:1'', ''b'', ''c:2:3'']"
    by (simp add: scanLines_def rawLines_def maxScanTokenSize_def dropCR_def newline_def
        carriageReturn_def example_corrupt_def)
  then show ?thesis
    by (simp add: makeHashMap_def hf Let_def)
qed

lemma splitOn_append_sep:
  "sep \<notin> set xs \<Longrightarrow> splitOn sep (xs @ sep # rest) = xs # splitOn sep rest"
  by (induction xs) auto

lemma example_long_line_facts:
  "length example_long_line = 65536"
  "CHR 0x0A \<notin> set example_long_line"
  "CHR '':'' \<notin> set example_long_line"
  by (simp_all add: example_long_line_def)

lemma rawLines_example_long_corrupt:
  "rawLines example_long_corrupt = [''a:1'', example_long_line, ''b'']"
  by (simp add: rawLines_def example_long_corrupt_def newline_def
      splitOn_append_sep example_long_line_facts)

text \<open>
  Claim C3, at a fingerprint file whose second line has 65536 bytes and no colon and
  whose third line has no colon either. The scanner stops at the long line, the loop ends
  as at the end of the file, and \<^verbatim>\<open>makeHashMap\<close> returns the map of the first line:
  neither of the two lines without a colon ends the process.
\<close>

theorem makeHashMap_long_line_skipped:
  "length example_long_line = 65536
   \<and> count_list example_long_line (CHR '':'') = 0
   \<and> rawLines example_long_corrupt = [''a:1'', example_long_line, ''b'']
   \<and> makeHashMap example_config (map_of [(''/home/bcbc/out/A1'', example_long_corrupt)])
        example_disk = Inr [''a'' \<mapsto> ''1'']"
proof -
  have hf: "hashFile example_config example_disk = ''/home/bcbc/out/A1''"
    by (simp add: hashFile_def outDir_def pathJoin_def example_config_def example_disk_def)
  have sl: "scanLines example_long_corrupt = [''a:1'']"
    by (simp add: scanLines_def rawLines_example_long_corrupt maxScanTokenSize_def
        example_long_line_facts dropCR_def carriageReturn_def)
  have "makeHashMap example_config (map_of [(''/home/bcbc/out/A1'', example_long_corrupt)])
        example_disk = Inr [''a'' \<mapsto> ''1'']"
    by (simp add: makeHashMap_def hf sl Let_def)
  moreover have "count_list example_long_line (CHR '':'') = 0"
    by (simp add: example_long_line_facts)
  ultimately show ?thesis
    by (simp add: example_long_line_facts rawLines_example_long_corrupt)
qed

subsection \<open>Listing a disk\<close>

lemma listFileInfoLoop_result:
  "listFileInfoLoop os flts stat di m files (tr, fl, tot) =
     (tr @ printLines (map (\<lambda>f. normPath (init os di f) @ '':'' @ the (m (normPath (init os di f))))
            (filter (\<lambda>f. m (normPath (init os di f)) \<noteq> None) files)),
      fl @ filter (\<lambda>fi. m (normPath fi) = None \<and> filterFile flts (normPath fi)) (map (init os di) files),
      tot + sum_list (map (\<lambda>fi. fst (fileSize stat fi))
            (filter (\<lambda>fi. m (normPath fi) = None \<and> filterFile flts (normPath fi)) (map (init os di) files))))"
proof (induction files arbitrary: tr fl tot)
  case Nil
  then show ?case by (simp add: printLines_def)
next
  case (Cons f files)
  show ?case
  proof (cases "m (normPath (init os di f))")
    case None
    then show ?thesis by (simp add: Cons.IH Let_def add.assoc)
  next
    case (Some h)
    then show ?thesis by (simp add: Cons.IH Let_def printLines_def)
  qed
qed

lemma listFileInfo_Inr:
  assumes "listFileInfo os c w di = Inr (fileInfoList, totalSize, w')"
  shows "\<exists>prior walk.
     makeHashMap c (contents w) di = Inr prior \<and> walkDir w (rootPath di) = Some walk \<and>
     w' = w\<lparr>contents := (contents w)(hashFile c di \<mapsto>
            printLines (map (\<lambda>f. normPath (init os di f) @ '':'' @ the (prior (normPath (init os di f))))
              (filter (\<lambda>f. prior (normPath (init os di f)) \<noteq> None) walk)))\<rparr> \<and>
     fileInfoList =
       filter (\<lambda>fi. prior (normPath fi) = None \<and> filterFile (filters c) (normPath fi))
         (map (init os di) walk) \<and>
     totalSize = sum_list (map (\<lambda>fi. fst (fileSize (statSize w) fi)) fileInfoList)"
  using assms
  by (auto simp: listFileInfo_def listFileInfoLoop_result
      split: sum.splits option.splits if_splits)

lemma splitOn_no_sep: "t \<in> set (splitOn sep s) \<Longrightarrow> sep \<notin> set t"
proof (induction s arbitrary: t)
  case Nil
  then show ?case by simp
next
  case (Cons c cs)
  then show ?case
    by (cases "splitOn sep cs") (auto split: if_splits)
qed

lemma makeHashMapLoop_keys:
  "makeHashMapLoop hf lines i r = Inr m \<Longrightarrow>
   (\<And>p d. r p = Some d \<Longrightarrow> CHR '':'' \<notin> set p) \<Longrightarrow> m p = Some d \<Longrightarrow> CHR '':'' \<notin> set p"
proof (induction lines arbitrary: i r)
  case Nil
  then show ?case by simp
next
  case (Cons line lines)
  let ?tokens = "splitOn (CHR '':'') line"
  from Cons.prems(1) have len: "length ?tokens = 2"
    and rest: "makeHashMapLoop hf lines (Suc i) (r(?tokens ! 0 \<mapsto> ?tokens ! 1)) = Inr m"
    by (auto simp: Let_def split: if_splits)
  from len have "?tokens ! 0 \<in> set ?tokens" by (simp del: splitOn.simps)
  then have "CHR '':'' \<notin> set (?tokens ! 0)" by (rule splitOn_no_sep)
  with Cons.prems(2) have "\<And>p d. (r(?tokens ! 0 \<mapsto> ?tokens ! 1)) p = Some d \<Longrightarrow> CHR '':'' \<notin> set p"
    by (auto split: if_splits)
  from Cons.IH [OF rest this Cons.prems(3)] show ?case .
qed

lemma makeHashMap_keys:
  "makeHashMap c fs di = Inr m \<Longrightarrow> m p = Some d \<Longrightarrow> CHR '':'' \<notin> set p"
  by (auto simp: makeHashMap_def split: option.splits dest: makeHashMapLoop_keys)

lemma record_line_path:
  "CHR '':'' \<notin> set p \<Longrightarrow> CHR '':'' \<notin> set q \<Longrightarrow> p @ '':'' @ d = q @ '':'' @ e \<Longrightarrow> p = q"
proof -
  assume p: "CHR '':'' \<notin> set p" and q: "CHR '':'' \<notin> set q" and eq: "p @ '':'' @ d = q @ '':'' @ e"
  have "takeWhile (\<lambda>c. c \<noteq> CHR '':'') (p @ '':'' @ d) = p"
    using p by (induction p) auto
  moreover have "takeWhile (\<lambda>c. c \<noteq> CHR '':'') (q @ '':'' @ e) = q"
    using q by (induction q) auto
  ultimately show "p = q" using eq by simp
qed

text \<open>
  Claim C1. When \<^verbatim>\<open>listFileInfo\<close> completes for a disk, the disk's fingerprint file holds
  exactly the carry-forward records: in the order of the walk, one line
  \<^verbatim>\<open>path:digest\<close> for every visited file whose canonical path is in the prior map, with
  the prior digest; and a record of the prior map whose path no visited file has is not
  among the lines.
\<close>

theorem listFileInfo_rewrites_carry_forward:
  assumes "listFileInfo os c w di = Inr (fileInfoList, totalSize, w')"
  shows "\<exists>prior walk lines.
           makeHashMap c (contents w) di = Inr prior \<and> walkDir w (rootPath di) = Some walk \<and>
           contents w' (hashFile c di) = Some (printLines lines) \<and>
           lines = map (\<lambda>f. normPath (init os di f) @ '':'' @ the (prior (normPath (init os di f))))
                     (filter (\<lambda>f. prior (normPath (init os di f)) \<noteq> None) walk) \<and>
           (\<forall>p d. prior p = Some d \<and> p \<notin> (\<lambda>f. normPath (init os di f)) ` set walk
                    \<longrightarrow> p @ '':'' @ d \<notin> set lines)"
proof -
  from listFileInfo_Inr [OF assms] obtain prior walk where
    pr: "makeHashMap c (contents w) di = Inr prior" and wk: "walkDir w (rootPath di) = Some walk"
    and w': "w' = w\<lparr>contents := (contents w)(hashFile c di \<mapsto>
            printLines (map (\<lambda>f. normPath (init os di f) @ '':'' @ the (prior (normPath (init os di f))))
              (filter (\<lambda>f. prior (normPath (init os di f)) \<noteq> None) walk)))\<rparr>"
    by blast
  let ?canon = "\<lambda>f. normPath (init os di f)"
  let ?lines = "map (\<lambda>f. ?canon f @ '':'' @ the (prior (?canon f)))
                     (filter (\<lambda>f. prior (?canon f) \<noteq> None) walk)"
  have "p @ '':'' @ d \<notin> set ?lines" if pd: "prior p = Some d" and np: "p \<notin> ?canon ` set walk" for p d
  proof
    assume "p @ '':'' @ d \<in> set ?lines"
    then obtain f where f: "f \<in> set walk" "prior (?canon f) \<noteq> None"
      "p @ '':'' @ d = ?canon f @ '':'' @ the (prior (?canon f))"
      by auto
    from f(2) obtain e where e: "prior (?canon f) = Some e" by auto
    have "p = ?canon f"
      using makeHashMap_keys [OF pr pd] makeHashMap_keys [OF pr e] f(3)
      by (rule record_line_path)
    with f(1) np show False by blast
  qed
  with pr wk w' show ?thesis by auto
qed

theorem listFileInfo_rewrites_carry_forward_witness:
  "\<exists>w'. listFileInfo example_unix example_config example_world example_disk
      = Inr ([init example_unix example_disk ''/mnt/a1/b.txt''], 5, w')
    \<and> contents w' ''/home/bcbc/out/A1''
      = Some (''a.txt:111'' @ [newline] @ ''c.tmp:333'' @ [newline])"
proof -
  have hf: "hashFile example_config example_disk = ''/home/bcbc/out/A1''"
    by (simp add: hashFile_def outDir_def pathJoin_def example_config_def example_disk_def)
  have ls: "scanLines example_prior = [''a.txt:111'', ''gone.txt:222'', ''c.tmp:333'']"
    by (simp add: scanLines_def rawLines_def maxScanTokenSize_def dropCR_def newline_def carriageReturn_def example_prior_def)
  have ct: "contents example_world ''/home/bcbc/out/A1'' = Some example_prior"
    by (simp add: example_world_def)
  have pr: "makeHashMap example_config (contents example_world) example_disk
      = Inr [''a.txt'' \<mapsto> ''111'', ''gone.txt'' \<mapsto> ''222'', ''c.tmp'' \<mapsto> ''333'']"
    by (simp add: makeHashMap_def hf ct ls Let_def)
  have wk: "walkDir example_world (rootPath example_disk)
      = Some [''/mnt/a1/a.txt'', ''/mnt/a1/b.txt'', ''/mnt/a1/c.tmp'', ''/mnt/a1/d.tmp'']"
    by (simp add: example_world_def example_disk_def)
  have np: "normPath (init example_unix example_disk ''/mnt/a1/a.txt'') = ''a.txt''"
    "normPath (init example_unix example_disk ''/mnt/a1/b.txt'') = ''b.txt''"
    "normPath (init example_unix example_disk ''/mnt/a1/c.tmp'') = ''c.tmp''"
    "normPath (init example_unix example_disk ''/mnt/a1/d.tmp'') = ''d.tmp''"
    by (simp_all add: init_def example_unix_def example_disk_def ToSlash_def)
  have ff: "\<not> filterFile (filters example_config) ''d.tmp''"
    "filterFile (filters example_config) ''b.txt''"
    by (simp_all add: example_config_def rule_deny_tmp_def rule_allow_all_def)
  have sz: "fst (fileSize (statSize example_world) (init example_unix example_disk ''/mnt/a1/b.txt'')) = 5"
    by (simp add: fileSize_def init_def example_world_def)
  have wr: "writable example_world ''/home/bcbc/out/A1''"
    by (simp add: example_world_def)
  obtain w' where
    e: "listFileInfo example_unix example_config example_world example_disk
      = Inr ([init example_unix example_disk ''/mnt/a1/b.txt''], 5, w')"
    by (simp add: listFileInfo_def pr wk hf wr listFileInfoLoop_result np ff sz)
  from listFileInfo_rewrites_carry_forward [OF e] pr wk
  have "contents w' ''/home/bcbc/out/A1'' = Some (''a.txt:111'' @ [newline] @ ''c.tmp:333'' @ [newline])"
    by (auto simp: hf printLines_def np)
  with e show ?thesis by blast
qed

lemma hashFile_filters [simp]: "hashFile (c\<lparr>filters := flts\<rparr>) di = hashFile c di"
  by (simp add: hashFile_def outDir_def)

lemma makeHashMap_filters [simp]: "makeHashMap (c\<lparr>filters := flts\<rparr>) fs di = makeHashMap c fs di"
  by (simp add: makeHashMap_def split: option.splits)

text \<open>
  Claim C9. A visited file whose canonical path is in the prior map has its old record
  in the rewritten fingerprint file and is not queued for hashing, and the rewritten
  file is the same whatever the filter rules are: the rules are not consulted for it, so
  the record is kept also when the rules would exclude the path.
\<close>

theorem listFileInfo_carries_without_filter:
  assumes "listFileInfo os c w di = Inr (fileInfoList, totalSize, w')"
    and "makeHashMap c (contents w) di = Inr prior"
    and "walkDir w (rootPath di) = Some walk"
    and "f \<in> set walk"
    and "prior (normPath (init os di f)) = Some d"
  shows "(\<exists>lines. contents w' (hashFile c di) = Some (printLines lines) \<and>
            normPath (init os di f) @ '':'' @ d \<in> set lines)
    \<and> (\<forall>fi\<in>set fileInfoList. normPath fi \<noteq> normPath (init os di f))
    \<and> (\<forall>flts. \<exists>fl tot w''. listFileInfo os (c\<lparr>filters := flts\<rparr>) w di = Inr (fl, tot, w'') \<and>
          contents w'' (hashFile c di) = contents w' (hashFile c di))"
proof -
  let ?canon = "\<lambda>f. normPath (init os di f)"
  let ?lines = "map (\<lambda>f. ?canon f @ '':'' @ the (prior (?canon f)))
                     (filter (\<lambda>f. prior (?canon f) \<noteq> None) walk)"
  from listFileInfo_Inr [OF assms(1)] assms(2,3) have
    w': "w' = w\<lparr>contents := (contents w)(hashFile c di \<mapsto> printLines ?lines)\<rparr>"
    and fl: "fileInfoList =
       filter (\<lambda>fi. prior (normPath fi) = None \<and> filterFile (filters c) (normPath fi))
         (map (init os di) walk)"
    by auto
  from assms(1) have wr: "writable w (hashFile c di)"
    by (auto simp: listFileInfo_def split: sum.splits option.splits prod.splits if_splits)
  have "?canon f @ '':'' @ d \<in> set ?lines"
    unfolding set_map set_filter using assms(4,5) by (intro image_eqI [where x = f]) auto
  moreover have "contents w' (hashFile c di) = Some (printLines ?lines)"
    using w' by simp
  ultimately have 1: "\<exists>lines. contents w' (hashFile c di) = Some (printLines lines) \<and>
            ?canon f @ '':'' @ d \<in> set lines"
    by blast
  have 2: "\<forall>fi\<in>set fileInfoList. normPath fi \<noteq> ?canon f"
    using fl assms(5) by auto
  have 3: "\<exists>fl tot w''. listFileInfo os (c\<lparr>filters := flts\<rparr>) w di = Inr (fl, tot, w'') \<and>
          contents w'' (hashFile c di) = contents w' (hashFile c di)" for flts
    using assms(2,3) wr w'
    by (simp add: listFileInfo_def listFileInfoLoop_result)
  from 1 2 3 show ?thesis by blast
qed

theorem listFileInfo_carries_without_filter_witness:
  "\<not> filterFile (filters example_config) ''c.tmp''
   \<and> (\<exists>fl tot w' lines.
        listFileInfo example_unix example_config example_world example_disk = Inr (fl, tot, w') \<and>
        contents w' ''/home/bcbc/out/A1'' = Some (printLines lines) \<and>
        ''c.tmp:333'' \<in> set lines \<and> ''c.tmp'' \<notin> normPath ` set fl)"
proof -
  have hf: "hashFile example_config example_disk = ''/home/bcbc/out/A1''"
    by (simp add: hashFile_def outDir_def pathJoin_def example_config_def example_disk_def)
  have ls: "scanLines example_prior = [''a.txt:111'', ''gone.txt:222'', ''c.tmp:333'']"
    by (simp add: scanLines_def rawLines_def maxScanTokenSize_def dropCR_def newline_def carriageReturn_def example_prior_def)
  have ct: "contents example_world ''/home/bcbc/out/A1'' = Some example_prior"
    by (simp add: example_world_def)
  have pr: "makeHashMap example_config (contents example_world) example_disk
      = Inr [''a.txt'' \<mapsto> ''111'', ''gone.txt'' \<mapsto> ''222'', ''c.tmp'' \<mapsto> ''333'']"
    by (simp add: makeHashMap_def hf ct ls Let_def)
  have wk: "walkDir example_world (rootPath example_disk)
      = Some [''/mnt/a1/a.txt'', ''/mnt/a1/b.txt'', ''/mnt/a1/c.tmp'', ''/mnt/a1/d.tmp'']"
    by (simp add: example_world_def example_disk_def)
  have np: "normPath (init example_unix example_disk ''/mnt/a1/c.tmp'') = ''c.tmp''"
    by (simp add: init_def example_unix_def example_disk_def ToSlash_def)
  have wr: "writable example_world ''/home/bcbc/out/A1''"
    by (simp add: example_world_def)
  obtain fl tot w' where
    e: "listFileInfo example_unix example_config example_world example_disk = Inr (fl, tot, w')"
    by (simp add: listFileInfo_def pr wk hf wr listFileInfoLoop_result)
  have m: "[''a.txt'' \<mapsto> ''111'', ''gone.txt'' \<mapsto> ''222'', ''c.tmp'' \<mapsto> ''333'']
      (normPath (init example_unix example_disk ''/mnt/a1/c.tmp'')) = Some ''333''"
    by (simp add: np)
  have ex: "\<not> filterFile (filters example_config) ''c.tmp''"
    by (simp add: example_config_def rule_deny_tmp_def)
  from listFileInfo_carries_without_filter [OF e pr wk _ m]
  have "(\<exists>lines. contents w' ''/home/bcbc/out/A1'' = Some (printLines lines) \<and>
            ''c.tmp:333'' \<in> set lines) \<and> (\<forall>fi\<in>set fl. normPath fi \<noteq> ''c.tmp'')"
    by (simp add: hf np)
  then obtain lines where "contents w' ''/home/bcbc/out/A1'' = Some (printLines lines)"
    "''c.tmp:333'' \<in> set lines" and nq: "\<forall>fi\<in>set fl. normPath fi \<noteq> ''c.tmp''"
    by blast
  moreover from nq have "''c.tmp'' \<notin> normPath ` set fl"
    by auto
  ultimately show ?thesis using e ex by blast
qed

subsection \<open>Canonical paths\<close>

lemma ToSlash_FromSlash:
  "sep \<notin> set x \<or> sep = CHR ''/'' \<Longrightarrow> ToSlash sep (FromSlash sep x) = x"
  by (induction x) (auto simp: ToSlash_def FromSlash_def)

text \<open>
  Claim C8. The canonical path that \<^verbatim>\<open>FileInfo.init\<close> computes is the relative path of
  the real path below the disk root, with the separators rewritten to slashes and then
  normalised to NFC; of the disk it depends on the root only. Two real paths whose
  relative paths are one slash path written with the separators of two platforms, up to
  canonical equivalence (equal NFC forms), get the same canonical path, and so the same
  answer from any prior map.
\<close>

theorem init_canonical_path:
  assumes "rel os1 (rootPath d1) p1 = FromSlash (separator os1) x1"
    and "rel os2 (rootPath d2) p2 = FromSlash (separator os2) x2"
    and "separator os1 \<notin> set x1 \<or> separator os1 = CHR ''/''"
    and "separator os2 \<notin> set x2 \<or> separator os2 = CHR ''/''"
    and "nfc os2 = nfc os1"
    and "nfc os1 x1 = nfc os1 x2"
  shows "normPath (init os1 d1 p1) = nfc os1 (ToSlash (separator os1) (rel os1 (rootPath d1) p1))
    \<and> normPath (init os1 (d1\<lparr>index := i, diskId := n\<rparr>) p1) = normPath (init os1 d1 p1)
    \<and> normPath (init os1 d1 p1) = normPath (init os2 d2 p2)
    \<and> hashMap (normPath (init os1 d1 p1)) = hashMap (normPath (init os2 d2 p2))"
proof -
  have "normPath (init os1 d1 p1) = nfc os1 x1"
    using assms(1,3) by (simp add: init_def ToSlash_FromSlash)
  moreover have "normPath (init os2 d2 p2) = nfc os1 x2"
    using assms(2,4,5) by (simp add: init_def ToSlash_FromSlash)
  ultimately show ?thesis using assms(6) by (simp add: init_def)
qed

theorem init_canonical_path_witness:
  "example_unix_path \<noteq> example_windows_path
   \<and> normPath (init example_unix example_disk example_unix_path)
     = ''dir/caf'' @ [CHR 0xC3, CHR 0xA9] @ ''.txt''
   \<and> normPath (init example_windows example_windows_disk example_windows_path)
     = normPath (init example_unix example_disk example_unix_path)"
proof -
  let ?x1 = "''dir/caf'' @ [CHR ''e'', CHR 0xCC, CHR 0x81] @ ''.txt''"
  let ?x2 = "''dir/caf'' @ [CHR 0xC3, CHR 0xA9] @ ''.txt''"
  have a1: "rel example_unix (rootPath example_disk) example_unix_path
      = FromSlash (separator example_unix) ?x1"
    by (simp add: example_unix_def example_disk_def example_unix_path_def FromSlash_def)
  have a2: "rel example_windows (rootPath example_windows_disk) example_windows_path
      = FromSlash (separator example_windows) ?x2"
    by (simp add: example_windows_def example_windows_disk_def example_windows_path_def
        FromSlash_def)
  have a3: "separator example_unix \<notin> set ?x1 \<or> separator example_unix = CHR ''/''"
    by (simp add: example_unix_def)
  have a4: "separator example_windows \<notin> set ?x2 \<or> separator example_windows = CHR ''/''"
    by (simp add: example_windows_def)
  have a5: "nfc example_windows = nfc example_unix"
    by (simp add: example_windows_def example_unix_def)
  have a6: "nfc example_unix ?x1 = nfc example_unix ?x2"
    by (simp add: example_unix_def)
  have ne: "example_unix_path \<noteq> example_windows_path"
    by (simp add: example_unix_path_def example_windows_path_def)
  have v: "normPath (init example_unix example_disk example_unix_path) = ?x2"
    by (simp add: init_def example_unix_def example_disk_def example_unix_path_def ToSlash_def)
  from init_canonical_path [OF a1 a2 a3 a4 a5 a6, THEN conjunct2, THEN conjunct2, THEN conjunct1]
  have "normPath (init example_windows example_windows_disk example_windows_path)
     = normPath (init example_unix example_disk example_unix_path)"
    by (rule sym)
  with ne v show ?thesis by simp
qed



subsection \<open>Merging\<close>

lemma pathJoin_inj [simp]: "pathJoin a b = pathJoin a b' \<longleftrightarrow> b = b'"
  by (simp add: pathJoin_def)

lemma hashFilePattern_Some:
  "hashFilePattern n = Some g \<longleftrightarrow>
     (\<exists>ch ds. n = ch # ds \<and> g = [ch] \<and> isUpper ch \<and> ds \<noteq> [] \<and> (\<forall>d\<in>set ds. isDigit d))"
  by (cases n) (auto simp: hashFilePattern_def list_all_iff)

lemma hashFilePattern_group: "hashFilePattern n = Some g \<Longrightarrow> hashFilePattern g = None"
  by (auto simp: hashFilePattern_Some) (simp add: hashFilePattern_def)

lemma scannedLines_Cons:
  "scannedLines c fs (n # names) g =
     (if hashFilePattern n = Some g
      then (case fs (pathJoin (outDir c) n) of None \<Rightarrow> []
            | Some content \<Rightarrow> filter (\<lambda>line. line \<noteq> []) (scanLines content)) @ scannedLines c fs names g
      else scannedLines c fs names g)"
  by (simp add: scannedLines_def)

lemma scannedLines_none:
  "\<forall>n\<in>set names. hashFilePattern n \<noteq> Some g \<Longrightarrow> scannedLines c fs names g = []"
  by (induction names) (auto simp: scannedLines_Cons scannedLines_def)

lemma collectHashes_map_of:
  "collectHashes c fs names m = Inr m' \<Longrightarrow>
   map_of m' g =
     (if \<exists>n\<in>set names. hashFilePattern n = Some g
      then Some ((case map_of m g of None \<Rightarrow> [] | Some ls \<Rightarrow> ls) @ scannedLines c fs names g)
      else map_of m g)"
proof (induction names arbitrary: m)
  case Nil
  then show ?case by simp
next
  case (Cons n names)
  show ?case
  proof (cases "hashFilePattern n")
    case None
    with Cons show ?thesis by (simp add: scannedLines_Cons)
  next
    case (Some g0)
    with Cons.prems obtain content where ct: "fs (pathJoin (outDir c) n) = Some content"
      by (auto simp: Let_def split: option.splits)
    let ?old = "case map_of m g0 of None \<Rightarrow> [] | Some ls \<Rightarrow> ls"
    let ?new = "filter (\<lambda>line. line \<noteq> []) (scanLines content)"
    let ?m1 = "AList.update g0 (?old @ ?new) m"
    from Cons.prems Some ct have "collectHashes c fs names ?m1 = Inr m'"
      by (simp add: Let_def)
    from Cons.IH [OF this] have ih: "map_of m' g =
     (if \<exists>n\<in>set names. hashFilePattern n = Some g
      then Some ((case map_of ?m1 g of None \<Rightarrow> [] | Some ls \<Rightarrow> ls) @ scannedLines c fs names g)
      else map_of ?m1 g)" .
    show ?thesis
    proof (cases "g = g0")
      case True
      then show ?thesis
        using ih Some ct
        by (auto simp: scannedLines_Cons update_conv' scannedLines_none)
    next
      case False
      then show ?thesis
        using ih Some ct
        by (auto simp: scannedLines_Cons update_conv')
    qed
  qed
qed

lemma collectHashes_distinct:
  "collectHashes c fs names m = Inr m' \<Longrightarrow> distinct (map fst m) \<Longrightarrow> distinct (map fst m')"
proof (induction names arbitrary: m)
  case Nil
  then show ?case by simp
next
  case (Cons n names)
  then show ?case
    by (auto simp: Let_def distinct_update split: option.splits)
qed

lemma collectHashes_filter:
  "collectHashes c fs names m = collectHashes c fs (filter (\<lambda>n. hashFilePattern n \<noteq> None) names) m"
  by (induction names arbitrary: m) (auto simp: Let_def split: option.splits)

lemma collectHashes_cong:
  "\<forall>n\<in>set names. hashFilePattern n \<noteq> None \<longrightarrow> fs1 (pathJoin (outDir c) n) = fs2 (pathJoin (outDir c) n)
   \<Longrightarrow> collectHashes c fs1 names m = collectHashes c fs2 names m"
  by (induction names arbitrary: m) (auto simp: Let_def split: option.splits)

lemma writeMerged_lookup:
  "writeMerged c w m fs = Inr fs' \<Longrightarrow> distinct (map fst m) \<Longrightarrow>
   (\<forall>g ls. (g, ls) \<in> set m \<longrightarrow> fs' (pathJoin (outDir c) g) = Some (printLines (sort ls))) \<and>
   (\<forall>p. p \<notin> pathJoin (outDir c) ` fst ` set m \<longrightarrow> fs' p = fs p)"
proof (induction m arbitrary: fs)
  case Nil
  then show ?case by simp
next
  case (Cons e m)
  obtain g0 ls0 where e: "e = (g0, ls0)" by (cases e)
  let ?fs1 = "fs(pathJoin (outDir c) g0 \<mapsto> printLines (sort ls0))"
  from Cons.prems(1) e have r: "writeMerged c w m ?fs1 = Inr fs'"
    by (auto simp: Let_def split: if_splits)
  from Cons.prems(2) e have d: "distinct (map fst m)" and n: "g0 \<notin> fst ` set m"
    by auto
  from Cons.IH [OF r d] have
    ih1: "\<forall>g ls. (g, ls) \<in> set m \<longrightarrow> fs' (pathJoin (outDir c) g) = Some (printLines (sort ls))"
    and ih2: "\<forall>p. p \<notin> pathJoin (outDir c) ` fst ` set m \<longrightarrow> fs' p = ?fs1 p"
    by blast+
  from n have "pathJoin (outDir c) g0 \<notin> pathJoin (outDir c) ` fst ` set m"
    by (auto simp: image_iff)
  with ih2 have "fs' (pathJoin (outDir c) g0) = Some (printLines (sort ls0))"
    by simp
  moreover have "\<forall>p. p \<notin> pathJoin (outDir c) ` fst ` set (e # m) \<longrightarrow> fs' p = fs p"
    using ih2 e by auto
  ultimately show ?case using ih1 e by auto
qed

lemma writeMerged_succeeds:
  "writeMerged c w m fs = Inr fs' \<Longrightarrow> writable w2 = writable w \<Longrightarrow> printOk w2 = printOk w \<Longrightarrow>
   \<exists>fs''. writeMerged c w2 m fs2 = Inr fs''"
proof (induction m arbitrary: fs fs2)
  case Nil
  then show ?case by simp
next
  case (Cons e m)
  obtain g0 ls0 where e: "e = (g0, ls0)" by (cases e)
  from Cons.prems(1) e
  have r: "writeMerged c w m (fs(pathJoin (outDir c) g0 \<mapsto> printLines (sort ls0))) = Inr fs'"
    and ok: "writable w (pathJoin (outDir c) g0)" "ls0 = [] \<or> printOk w (pathJoin (outDir c) g0)"
    by (auto simp: Let_def split: if_splits)
  from Cons.IH [OF r Cons.prems(2,3)] ok e Cons.prems(2,3) show ?case
    by (auto simp: Let_def)
qed


lemma executeHashFileIntegration_Inr:
  assumes "executeHashFileIntegration c w names = Inr fs'"
  shows "\<exists>m. collectHashes c (contents w) names [] = Inr m \<and>
    writeMerged c w m (contents w) = Inr fs' \<and> distinct (map fst m) \<and>
    (\<forall>g. map_of m g =
      (if \<exists>n\<in>set names. hashFilePattern n = Some g
       then Some (scannedLines c (contents w) names g) else None))"
proof -
  from assms obtain m where m: "collectHashes c (contents w) names [] = Inr m"
    "writeMerged c w m (contents w) = Inr fs'"
    by (auto simp: executeHashFileIntegration_def split: sum.splits)
  from collectHashes_distinct [OF m(1)] have "distinct (map fst m)" by simp
  moreover from collectHashes_map_of [OF m(1)] have "\<forall>g. map_of m g =
      (if \<exists>n\<in>set names. hashFilePattern n = Some g
       then Some (scannedLines c (contents w) names g) else None)"
    by simp
  ultimately show ?thesis using m by blast
qed

lemma scanLines_shortLines: "shortLines content \<Longrightarrow> scanLines content = fileLines content"
  by (simp add: shortLines_def scanLines_def fileLines_def takeWhile_eq_all_conv [THEN iffD2])

lemma scannedLines_groupLines:
  "\<forall>n\<in>set names. hashFilePattern n = Some g \<longrightarrow>
      (\<forall>content. fs (pathJoin (outDir c) n) = Some content \<longrightarrow> shortLines content) \<Longrightarrow>
   scannedLines c fs names g = groupLines c fs names g"
  by (induction names)
    (auto simp: scannedLines_def groupLines_def scanLines_shortLines split: option.splits)

text \<open>
  Claim C5, as amended. When \<^verbatim>\<open>executeHashFileIntegration\<close> completes, then for every
  group that has a fingerprint file among the names, and whose fingerprint files have no
  line of 65536 bytes or more, the file of the group holds, one per line, a sorted list
  (byte order of the whole line) with the same lines, duplicates included, as the
  non-empty lines of the group's fingerprint files; the prior content of the file is
  gone. Names that do not match the pattern contribute nothing, and every file that is
  not the file of such a group is unchanged.
\<close>

theorem executeHashFileIntegration_sorted_groups:
  assumes "executeHashFileIntegration c w names = Inr fs'"
  shows "(\<forall>g. (\<exists>n\<in>set names. hashFilePattern n = Some g) \<and>
              (\<forall>n\<in>set names. hashFilePattern n = Some g \<longrightarrow>
                 (\<forall>content. contents w (pathJoin (outDir c) n) = Some content \<longrightarrow>
                    shortLines content)) \<longrightarrow>
            (\<exists>ls. fs' (pathJoin (outDir c) g) = Some (printLines ls) \<and> sorted ls \<and>
                  mset ls = mset (groupLines c (contents w) names g)))
    \<and> (\<forall>p. (\<forall>n\<in>set names. \<forall>g. hashFilePattern n = Some g \<longrightarrow> p \<noteq> pathJoin (outDir c) g)
            \<longrightarrow> fs' p = contents w p)"
proof -
  from executeHashFileIntegration_Inr [OF assms] obtain m where
    wm: "writeMerged c w m (contents w) = Inr fs'"
    and d: "distinct (map fst m)"
    and mo: "\<And>g. map_of m g =
      (if \<exists>n\<in>set names. hashFilePattern n = Some g
       then Some (scannedLines c (contents w) names g) else None)"
    by blast
  from writeMerged_lookup [OF wm d] have
    l1: "\<And>g ls. (g, ls) \<in> set m \<Longrightarrow> fs' (pathJoin (outDir c) g) = Some (printLines (sort ls))"
    and l2: "\<And>p. p \<notin> pathJoin (outDir c) ` fst ` set m \<Longrightarrow> fs' p = contents w p"
    by blast+
  have 1: "\<exists>ls. fs' (pathJoin (outDir c) g) = Some (printLines ls) \<and> sorted ls \<and>
                  mset ls = mset (groupLines c (contents w) names g)"
    if ex: "\<exists>n\<in>set names. hashFilePattern n = Some g"
      and sh: "\<forall>n\<in>set names. hashFilePattern n = Some g \<longrightarrow>
                 (\<forall>content. contents w (pathJoin (outDir c) n) = Some content \<longrightarrow>
                    shortLines content)" for g
  proof -
    from sh have eq: "scannedLines c (contents w) names g = groupLines c (contents w) names g"
      by (rule scannedLines_groupLines)
    from ex mo have "map_of m g = Some (scannedLines c (contents w) names g)" by simp
    then have "(g, scannedLines c (contents w) names g) \<in> set m" by (rule map_of_SomeD)
    from l1 [OF this] eq show ?thesis
      by (intro exI [of _ "sort (groupLines c (contents w) names g)"]) simp
  qed
  have 2: "fs' p = contents w p"
    if np: "\<forall>n\<in>set names. \<forall>g. hashFilePattern n = Some g \<longrightarrow> p \<noteq> pathJoin (outDir c) g" for p
  proof (rule l2, rule notI)
    assume "p \<in> pathJoin (outDir c) ` fst ` set m"
    then obtain g ls where g: "(g, ls) \<in> set m" "p = pathJoin (outDir c) g" by auto
    from g(1) d have "map_of m g = Some ls" by simp
    with mo [of g] obtain n where "n \<in> set names" "hashFilePattern n = Some g"
      by (auto split: if_splits)
    with np g(2) show False by blast
  qed
  from 1 2 show ?thesis by blast
qed

theorem executeHashFileIntegration_sorted_groups_witness:
  "\<exists>fs'. executeHashFileIntegration example_config example_out [''A1'', ''A2'', ''notes.txt''] = Inr fs'
     \<and> fs' ''/home/bcbc/out/A'' = Some (''x:111'' @ [newline] @ ''y:222'' @ [newline])
     \<and> fs' ''/home/bcbc/out/notes.txt'' = Some ''z:333''"
proof -
  have od: "outDir example_config = ''/home/bcbc/out''"
    by (simp add: outDir_def pathJoin_def example_config_def)
  have pt: "hashFilePattern ''A1'' = Some ''A''" "hashFilePattern ''A2'' = Some ''A''"
    "hashFilePattern ''notes.txt'' = None"
    by (simp_all add: hashFilePattern_def isUpper_def isDigit_def)
  have ct: "contents example_out ''/home/bcbc/out/A1'' = Some example_A1"
    "contents example_out ''/home/bcbc/out/A2'' = Some example_A2"
    "contents example_out ''/home/bcbc/out/notes.txt'' = Some ''z:333''"
    by (simp_all add: example_out_def)
  have rl: "rawLines example_A1 = [''x:111'']" "rawLines example_A2 = [''y:222'']"
    by (simp_all add: rawLines_def newline_def example_A1_def example_A2_def)
  have sh: "shortLines example_A1" "shortLines example_A2"
    by (simp_all add: shortLines_def rl maxScanTokenSize_def)
  have fl: "fileLines example_A1 = [''x:111'']" "fileLines example_A2 = [''y:222'']"
    by (simp_all add: fileLines_def rl dropCR_def carriageReturn_def)
  have sl: "scanLines example_A1 = [''x:111'']" "scanLines example_A2 = [''y:222'']"
    by (simp_all add: scanLines_shortLines sh fl)
  have wr: "writable example_out ''/home/bcbc/out/A''" "printOk example_out ''/home/bcbc/out/A''"
    by (simp_all add: example_out_def)
  obtain fs' where
    e: "executeHashFileIntegration example_config example_out [''A1'', ''A2'', ''notes.txt''] = Inr fs'"
    by (simp add: executeHashFileIntegration_def pt Let_def od pathJoin_def ct sl wr)
  have gl: "groupLines example_config (contents example_out) [''A1'', ''A2'', ''notes.txt''] ''A''
      = [''x:111'', ''y:222'']"
    by (simp add: groupLines_def pt od pathJoin_def ct fl)
  have g: "(\<exists>n\<in>set [''A1'', ''A2'', ''notes.txt'']. hashFilePattern n = Some ''A'') \<and>
      (\<forall>n\<in>set [''A1'', ''A2'', ''notes.txt'']. hashFilePattern n = Some ''A'' \<longrightarrow>
         (\<forall>content. contents example_out (pathJoin (outDir example_config) n) = Some content \<longrightarrow>
            shortLines content))"
    by (simp add: pt od pathJoin_def ct sh)
  have o: "\<forall>n\<in>set [''A1'', ''A2'', ''notes.txt'']. \<forall>g. hashFilePattern n = Some g \<longrightarrow>
      ''/home/bcbc/out/notes.txt'' \<noteq> pathJoin (outDir example_config) g"
    by (simp add: pt od pathJoin_def)
  from executeHashFileIntegration_sorted_groups [OF e, THEN conjunct1, THEN spec, THEN mp, OF g]
  obtain ls where
    ls0: "fs' (pathJoin (outDir example_config) ''A'') = Some (printLines ls)" "sorted ls"
      "mset ls = mset (groupLines example_config (contents example_out) [''A1'', ''A2'', ''notes.txt''] ''A'')"
    by blast
  from ls0 gl have ls: "fs' (pathJoin (outDir example_config) ''A'') = Some (printLines ls)" "sorted ls"
      "mset ls = mset [''x:111'', ''y:222'']"
    by simp_all
  from executeHashFileIntegration_sorted_groups [OF e, THEN conjunct2, THEN spec, THEN mp, OF o]
  have nt: "fs' ''/home/bcbc/out/notes.txt'' = contents example_out ''/home/bcbc/out/notes.txt''" .
  from ls(3) ls(2) have "sort [''x:111'', ''y:222''] = ls" by (rule properties_for_sort)
  then have "ls = [''x:111'', ''y:222'']" by simp
  with ls(1) have "fs' ''/home/bcbc/out/A'' = Some (''x:111'' @ [newline] @ ''y:222'' @ [newline])"
    by (simp add: od pathJoin_def printLines_def)
  with e nt ct show ?thesis by auto
qed

text \<open>
  Claim C5 as stated fails where a fingerprint file has an empty line: the merged file
  is not the sorted list of all lines of the file, the empty line is left out.
\<close>

theorem executeHashFileIntegration_blank_line_counterexample:
  "fileLines example_blank = [''x:111'', [], ''y:222'']
   \<and> executeHashFileIntegration example_config example_out_blank [''A1'']
      = Inr ((contents example_out_blank)(''/home/bcbc/out/A'' \<mapsto> printLines [''x:111'', ''y:222'']))
   \<and> printLines [''x:111'', ''y:222''] \<noteq> printLines (sort (fileLines example_blank))"
proof -
  have od: "outDir example_config = ''/home/bcbc/out''"
    by (simp add: outDir_def pathJoin_def example_config_def)
  have pt: "hashFilePattern ''A1'' = Some ''A''"
    by (simp add: hashFilePattern_def isUpper_def isDigit_def)
  have ct: "contents example_out_blank ''/home/bcbc/out/A1'' = Some example_blank"
    by (simp add: example_out_blank_def)
  have rl: "rawLines example_blank = [''x:111'', [], ''y:222'']"
    by (simp add: rawLines_def newline_def example_blank_def)
  have fl: "fileLines example_blank = [''x:111'', [], ''y:222'']"
    by (simp add: fileLines_def rl dropCR_def carriageReturn_def)
  have sl: "scanLines example_blank = [''x:111'', [], ''y:222'']"
    by (simp add: scanLines_def rl maxScanTokenSize_def dropCR_def carriageReturn_def)
  have wr: "writable example_out_blank ''/home/bcbc/out/A''" "printOk example_out_blank ''/home/bcbc/out/A''"
    by (simp_all add: example_out_blank_def)
  have "executeHashFileIntegration example_config example_out_blank [''A1'']
      = Inr ((contents example_out_blank)(''/home/bcbc/out/A'' \<mapsto> printLines [''x:111'', ''y:222'']))"
    by (simp add: executeHashFileIntegration_def pt Let_def od pathJoin_def ct sl wr)
  moreover have "printLines [''x:111'', ''y:222''] \<noteq> printLines (sort (fileLines example_blank))"
    by (simp add: fl printLines_def)
  ultimately show ?thesis using fl by simp
qed

text \<open>
  Claim C10. A name is read by the merge only when it is one upper-case letter followed
  by one or more digits; the name of a merged group file, the letter alone, does not
  match, so the merge reads the same from the listing without the other names; and a
  second merge, over a listing with the same fingerprint files and the files the first
  merge left, returns the very same files.
\<close>

theorem executeHashFileIntegration_idempotent:
  assumes "executeHashFileIntegration c w names = Inr fs'"
    and "filter (\<lambda>n. hashFilePattern n \<noteq> None) names' = filter (\<lambda>n. hashFilePattern n \<noteq> None) names"
  shows "(\<forall>n g. hashFilePattern n = Some g \<longrightarrow>
            hashFilePattern g = None \<and>
            (\<exists>ch ds. n = ch # ds \<and> g = [ch] \<and> isUpper ch \<and> ds \<noteq> [] \<and> (\<forall>d\<in>set ds. isDigit d)))
    \<and> executeHashFileIntegration c w (filter (\<lambda>n. hashFilePattern n \<noteq> None) names) = Inr fs'
    \<and> executeHashFileIntegration c (w\<lparr>contents := fs'\<rparr>) names' = Inr fs'"
proof -
  from executeHashFileIntegration_Inr [OF assms(1)] obtain m where
    cm: "collectHashes c (contents w) names [] = Inr m"
    and wm: "writeMerged c w m (contents w) = Inr fs'"
    and d: "distinct (map fst m)"
    and mo: "\<And>g. map_of m g =
      (if \<exists>n\<in>set names. hashFilePattern n = Some g
       then Some (scannedLines c (contents w) names g) else None)"
    by blast
  have 1: "\<forall>n g. hashFilePattern n = Some g \<longrightarrow>
            hashFilePattern g = None \<and>
            (\<exists>ch ds. n = ch # ds \<and> g = [ch] \<and> isUpper ch \<and> ds \<noteq> [] \<and> (\<forall>d\<in>set ds. isDigit d))"
    using hashFilePattern_group hashFilePattern_Some by blast
  have 2: "executeHashFileIntegration c w (filter (\<lambda>n. hashFilePattern n \<noteq> None) names) = Inr fs'"
    using cm wm collectHashes_filter [of c "contents w" names "[]"]
    by (simp add: executeHashFileIntegration_def)
  from writeMerged_lookup [OF wm d] have
    l1: "\<And>g ls. (g, ls) \<in> set m \<Longrightarrow> fs' (pathJoin (outDir c) g) = Some (printLines (sort ls))"
    and l2: "\<And>p. p \<notin> pathJoin (outDir c) ` fst ` set m \<Longrightarrow> fs' p = contents w p"
    by blast+
  have keys: "hashFilePattern g = None" if "g \<in> fst ` set m" for g
  proof -
    from that obtain ls where "(g, ls) \<in> set m" by auto
    with d have "map_of m g = Some ls" by simp
    with mo [of g] obtain n where "hashFilePattern n = Some g" by (auto split: if_splits)
    then show ?thesis by (rule hashFilePattern_group)
  qed
  have same: "fs' (pathJoin (outDir c) n) = contents w (pathJoin (outDir c) n)"
    if "hashFilePattern n \<noteq> None" for n
  proof (rule l2, rule notI)
    assume "pathJoin (outDir c) n \<in> pathJoin (outDir c) ` fst ` set m"
    then have "n \<in> fst ` set m" by (auto simp: image_iff)
    from keys [OF this] that show False by simp
  qed
  have "collectHashes c fs' names' [] = collectHashes c fs' (filter (\<lambda>n. hashFilePattern n \<noteq> None) names) []"
    using collectHashes_filter [of c fs' names' "[]"] assms(2) by simp
  also have "\<dots> = collectHashes c (contents w) (filter (\<lambda>n. hashFilePattern n \<noteq> None) names) []"
    by (rule collectHashes_cong) (simp add: same)
  also have "\<dots> = Inr m"
    using cm collectHashes_filter [of c "contents w" names "[]"] by simp
  finally have cm': "collectHashes c fs' names' [] = Inr m" .
  from writeMerged_succeeds [OF wm, of "w\<lparr>contents := fs'\<rparr>" fs']
  obtain fs'' where wm': "writeMerged c (w\<lparr>contents := fs'\<rparr>) m fs' = Inr fs''" by auto
  from writeMerged_lookup [OF wm' d] have
    k1: "\<And>g ls. (g, ls) \<in> set m \<Longrightarrow> fs'' (pathJoin (outDir c) g) = Some (printLines (sort ls))"
    and k2: "\<And>p. p \<notin> pathJoin (outDir c) ` fst ` set m \<Longrightarrow> fs'' p = fs' p"
    by blast+
  have "fs'' = fs'"
  proof (rule ext)
    fix p
    show "fs'' p = fs' p"
    proof (cases "p \<in> pathJoin (outDir c) ` fst ` set m")
      case True
      then obtain g ls where "(g, ls) \<in> set m" "p = pathJoin (outDir c) g" by auto
      with k1 l1 show ?thesis by simp
    next
      case False
      then show ?thesis by (rule k2)
    qed
  qed
  with cm' wm' have 3: "executeHashFileIntegration c (w\<lparr>contents := fs'\<rparr>) names' = Inr fs'"
    by (simp add: executeHashFileIntegration_def)
  from 1 2 3 show ?thesis by blast
qed

theorem executeHashFileIntegration_idempotent_witness:
  "hashFilePattern ''A'' = None
   \<and> (\<exists>fs'. executeHashFileIntegration example_config example_out [''A1'', ''A2'', ''notes.txt''] = Inr fs'
        \<and> fs' ''/home/bcbc/out/A'' = Some (''x:111'' @ [newline] @ ''y:222'' @ [newline])
        \<and> executeHashFileIntegration example_config (example_out\<lparr>contents := fs'\<rparr>)
            [''A'', ''A1'', ''A2'', ''notes.txt''] = Inr fs')"
proof -
  have od: "outDir example_config = ''/home/bcbc/out''"
    by (simp add: outDir_def pathJoin_def example_config_def)
  have pt: "hashFilePattern ''A1'' = Some ''A''" "hashFilePattern ''A2'' = Some ''A''"
    "hashFilePattern ''notes.txt'' = None" "hashFilePattern ''A'' = None"
    by (simp_all add: hashFilePattern_def isUpper_def isDigit_def)
  have ct: "contents example_out ''/home/bcbc/out/A1'' = Some example_A1"
    "contents example_out ''/home/bcbc/out/A2'' = Some example_A2"
    by (simp_all add: example_out_def)
  have sl: "scanLines example_A1 = [''x:111'']" "scanLines example_A2 = [''y:222'']"
    by (simp_all add: scanLines_def rawLines_def maxScanTokenSize_def dropCR_def newline_def carriageReturn_def
        example_A1_def example_A2_def)
  have wr: "writable example_out ''/home/bcbc/out/A''" "printOk example_out ''/home/bcbc/out/A''"
    by (simp_all add: example_out_def)
  have e: "executeHashFileIntegration example_config example_out [''A1'', ''A2'', ''notes.txt'']
      = Inr ((contents example_out)(''/home/bcbc/out/A'' \<mapsto> printLines [''x:111'', ''y:222'']))"
    by (simp add: executeHashFileIntegration_def pt Let_def od pathJoin_def ct sl wr)
  have f: "filter (\<lambda>n. hashFilePattern n \<noteq> None) [''A'', ''A1'', ''A2'', ''notes.txt'']
      = filter (\<lambda>n. hashFilePattern n \<noteq> None) [''A1'', ''A2'', ''notes.txt'']"
    by (simp add: pt)
  from executeHashFileIntegration_idempotent [OF e f]
  have "executeHashFileIntegration example_config
      (example_out\<lparr>contents := (contents example_out)(''/home/bcbc/out/A'' \<mapsto> printLines [''x:111'', ''y:222''])\<rparr>)
      [''A'', ''A1'', ''A2'', ''notes.txt'']
      = Inr ((contents example_out)(''/home/bcbc/out/A'' \<mapsto> printLines [''x:111'', ''y:222'']))"
    by blast
  with e pt(4) show ?thesis
    by (intro conjI exI [of _ "(contents example_out)(''/home/bcbc/out/A'' \<mapsto> printLines [''x:111'', ''y:222''])"])
      (simp_all add: printLines_def)
qed



subsection \<open>Progress of a worker\<close>

lemma unat_plus_word:
  "unat (x :: 64 word) + unat y < 2 ^ 64 \<Longrightarrow> unat (x + y) = unat x + unat y"
  using unat_add_lem [of x y] by simp

lemma unat_plus_of_nat:
  "unat (x :: 64 word) + n < 2 ^ 64 \<Longrightarrow> unat (x + of_nat n) = unat x + n"
proof -
  assume a: "unat x + n < 2 ^ 64"
  then have "n < 2 ^ 64" by simp
  then have "unat (of_nat n :: 64 word) = n" by (simp add: unat_of_nat)
  with a unat_plus_word [of x "of_nat n"] show ?thesis by simp
qed

lemma calcHashLoop_snaps:
  "calcHashLoop rs h p = (r, snaps) \<Longrightarrow> bytesDone p + bytesCounted rs < 2 ^ 64 \<Longrightarrow>
   sorted (map bytesDone snaps) \<and>
   (\<forall>q\<in>set snaps. bytesDone p \<le> bytesDone q \<and> bytesDone q \<le> bytesDone p + bytesCounted rs \<and>
      filesDone q = filesDone p)"
proof (induction rs arbitrary: h p r snaps)
  case Nil
  then show ?case by simp
next
  case (Cons a rs)
  obtain buffer err where a: "a = (buffer, err)" by (cases a)
  show ?case
  proof (cases "buffer = [] \<or> err")
    case True
    with Cons.prems a show ?thesis by (auto split: if_splits)
  next
    case False
    let ?p' = "p\<lparr>sizeCount := Increment (sizeCount p) (of_nat (length buffer))\<rparr>"
    from False a Cons.prems(2) have b: "bytesDone p + length buffer + bytesCounted rs < 2 ^ 64"
      by simp
    then have "unat (processed (sizeCount p)) + length buffer < 2 ^ 64"
      by (simp add: bytesDone_def)
    then have bp: "bytesDone ?p' = bytesDone p + length buffer"
      by (simp add: bytesDone_def Increment_def unat_plus_of_nat)
    have fp: "filesDone ?p' = filesDone p"
      by (simp add: filesDone_def)
    from False a Cons.prems(1) obtain snaps' where
      rec: "calcHashLoop rs (h @ buffer) ?p' = (r, snaps')" and sn: "snaps = ?p' # snaps'"
      by (auto simp: Let_def split: prod.splits)
    from b bp have "bytesDone ?p' + bytesCounted rs < 2 ^ 64" by simp
    from Cons.IH [OF rec this] have ih: "sorted (map bytesDone snaps')"
      "\<forall>q\<in>set snaps'. bytesDone ?p' \<le> bytesDone q \<and>
         bytesDone q \<le> bytesDone ?p' + bytesCounted rs \<and> filesDone q = filesDone ?p'"
      by blast+
    from ih bp fp sn False a show ?thesis by auto
  qed
qed

lemma calcHash_snaps:
  assumes "calcHash file p io = (hash, logs, snaps)"
    and "openOk io \<longrightarrow> bytesCounted (reads io) \<le> B"
    and "bytesDone p + B < 2 ^ 64"
  shows "sorted (map bytesDone snaps) \<and>
   (\<forall>q\<in>set snaps. bytesDone p \<le> bytesDone q \<and> bytesDone q \<le> bytesDone p + B \<and>
      filesDone q = filesDone p)"
proof (cases "openOk io")
  case False
  with assms(1) show ?thesis by (simp add: calcHash_def)
next
  case True
  let ?p = "p\<lparr>processingFile := file\<rparr>"
  from True assms(1) obtain r where l: "calcHashLoop (reads io) [] ?p = (r, snaps)"
    by (auto simp: calcHash_def split: prod.splits)
  have e: "bytesDone ?p = bytesDone p" "filesDone ?p = filesDone p"
    by (simp_all add: bytesDone_def filesDone_def)
  from True assms(2,3) e have "bytesDone ?p + bytesCounted (reads io) < 2 ^ 64" by simp
  from calcHashLoop_snaps [OF l this] e True assms(2) show ?thesis by fastforce
qed

lemma hashLoop_Cons:
  assumes "calcHash (realPath fi) (progressInfo wk) (io (realPath fi)) = (hash, logs, snaps)"
  shows "\<exists>wk2. sent wk2 = sent wk @ snaps \<and>
     progressInfo wk2 =
       (progressInfo wk)\<lparr>fileCount := Increment (fileCount (progressInfo wk)) 1,
         sizeCount := Increment (sizeCount (progressInfo wk)) (sizeAtHash io fi)\<rparr> \<and>
     (hashLoop md5hex io di (fi # fis) wk = hashLoop md5hex io di fis wk2 \<or>
      (\<exists>cm. hashLoop md5hex io di (fi # fis) wk = (wk2, Some cm)))"
proof (cases hash)
  case None
  with assms show ?thesis
    by (intro exI [of _ "wk\<lparr>progressInfo :=
       (progressInfo wk)\<lparr>fileCount := Increment (fileCount (progressInfo wk)) 1,
         sizeCount := Increment (sizeCount (progressInfo wk)) (sizeAtHash io fi)\<rparr>,
       sent := sent wk @ snaps, logf := (logf wk @ logs) @ [HashFailed (realPath fi)]\<rparr>"])
      (simp add: Let_def sizeAtHash_def)
next
  case (Some bytes)
  show ?thesis
  proof (cases "appendOk (io (realPath fi))")
    case True
    with Some assms show ?thesis
      by (intro exI [of _ "wk\<lparr>progressInfo :=
       (progressInfo wk)\<lparr>fileCount := Increment (fileCount (progressInfo wk)) 1,
         sizeCount := Increment (sizeCount (progressInfo wk)) (sizeAtHash io fi)\<rparr>,
       sent := sent wk @ snaps, logf := logf wk @ logs,
       hashFileOut := hashFileOut wk @ (normPath fi @ '':'' @ md5hex bytes @ [newline])\<rparr>"])
        (simp add: Let_def sizeAtHash_def)
  next
    case False
    with Some assms show ?thesis
      by (intro exI [of _ "wk\<lparr>progressInfo :=
       (progressInfo wk)\<lparr>fileCount := Increment (fileCount (progressInfo wk)) 1,
         sizeCount := Increment (sizeCount (progressInfo wk)) (sizeAtHash io fi)\<rparr>,
       sent := sent wk @ snaps, logf := logf wk @ logs\<rparr>"])
        (simp add: Let_def sizeAtHash_def)
  qed
qed

lemma calcHashLoop_files:
  "calcHashLoop rs h p = (r, snaps) \<Longrightarrow> \<forall>q\<in>set snaps. filesDone q = filesDone p"
proof (induction rs arbitrary: h p r snaps)
  case Nil
  then show ?case by simp
next
  case (Cons a rs)
  obtain buffer err where a: "a = (buffer, err)" by (cases a)
  show ?case
  proof (cases "buffer = [] \<or> err")
    case True
    with Cons.prems a show ?thesis by (auto split: if_splits)
  next
    case False
    let ?p' = "p\<lparr>sizeCount := Increment (sizeCount p) (of_nat (length buffer))\<rparr>"
    have fp: "filesDone ?p' = filesDone p"
      by (simp add: filesDone_def)
    from False a Cons.prems obtain snaps' where
      rec: "calcHashLoop rs (h @ buffer) ?p' = (r, snaps')" and sn: "snaps = ?p' # snaps'"
      by (auto simp: Let_def split: prod.splits)
    from Cons.IH [OF rec] fp sn show ?thesis by simp
  qed
qed

lemma calcHash_files:
  assumes "calcHash file p io = (hash, logs, snaps)"
  shows "\<forall>q\<in>set snaps. filesDone q = filesDone p"
proof (cases "openOk io")
  case False
  with assms show ?thesis by (simp add: calcHash_def)
next
  case True
  let ?p = "p\<lparr>processingFile := file\<rparr>"
  from True assms obtain r where l: "calcHashLoop (reads io) [] ?p = (r, snaps)"
    by (auto simp: calcHash_def split: prod.splits)
  have "filesDone ?p = filesDone p"
    by (simp add: filesDone_def)
  with calcHashLoop_files [OF l] show ?thesis by simp
qed

lemma hashLoop_files_mono:
  "hashLoop md5hex io di fis wk = (wk', r) \<Longrightarrow>
   sorted (map filesDone (sent wk)) \<Longrightarrow>
   \<forall>q\<in>set (sent wk). filesDone q \<le> filesDone (progressInfo wk) \<Longrightarrow>
   filesDone (progressInfo wk) + length fis < 2 ^ 64 \<Longrightarrow>
   sorted (map filesDone (sent wk')) \<and>
   (\<forall>q\<in>set (sent wk'). filesDone q \<le> filesDone (progressInfo wk'))"
proof (induction fis arbitrary: wk)
  case Nil
  then show ?case by simp
next
  case (Cons fi fis)
  let ?p = "progressInfo wk"
  obtain hash logs snaps where
    ch: "calcHash (realPath fi) ?p (io (realPath fi)) = (hash, logs, snaps)"
    by (cases "calcHash (realPath fi) ?p (io (realPath fi))") auto
  from calcHash_files [OF ch] have s2: "\<forall>q\<in>set snaps. filesDone q = filesDone ?p" .
  from hashLoop_Cons [of fi wk io hash logs snaps md5hex di fis, OF ch] obtain wk2 where
    w1: "sent wk2 = sent wk @ snaps"
    and w2: "progressInfo wk2 =
       ?p\<lparr>fileCount := Increment (fileCount ?p) 1,
         sizeCount := Increment (sizeCount ?p) (sizeAtHash io fi)\<rparr>"
    and w3: "hashLoop md5hex io di (fi # fis) wk = hashLoop md5hex io di fis wk2 \<or>
      (\<exists>cm. hashLoop md5hex io di (fi # fis) wk = (wk2, Some cm))"
    by blast
  from Cons.prems(4) have "unat (processed (fileCount ?p)) + unat (1 :: 64 word) < 2 ^ 64"
    by (simp add: filesDone_def)
  then have fd: "filesDone (progressInfo wk2) = filesDone ?p + 1"
    by (simp add: w2 filesDone_def Increment_def unat_plus_word)
  have sf: "sorted (map filesDone snaps)"
    using s2 by (simp add: sorted_iff_nth_mono)
  have n2: "sorted (map filesDone (sent wk2))"
    using Cons.prems(2,3) sf s2 by (auto simp: w1 sorted_append)
  have i2: "\<forall>q\<in>set (sent wk2). filesDone q \<le> filesDone (progressInfo wk2)"
    using Cons.prems(3) s2 fd by (auto simp: w1)
  from w3 show ?case
  proof
    assume "hashLoop md5hex io di (fi # fis) wk = hashLoop md5hex io di fis wk2"
    with Cons.prems(1) have r: "hashLoop md5hex io di fis wk2 = (wk', r)" by simp
    have f2: "filesDone (progressInfo wk2) + length fis < 2 ^ 64"
      using Cons.prems(4) fd by simp
    from Cons.IH [OF r n2 i2 f2] show ?thesis .
  next
    assume "\<exists>cm. hashLoop md5hex io di (fi # fis) wk = (wk2, Some cm)"
    with Cons.prems(1) have "wk' = wk2" by auto
    with n2 i2 show ?thesis by simp
  qed
qed

lemma hashLoop_bytes_mono:
  "hashLoop md5hex io di fis wk = (wk', r) \<Longrightarrow>
   sorted (map bytesDone (sent wk)) \<Longrightarrow>
   \<forall>q\<in>set (sent wk). bytesDone q \<le> bytesDone (progressInfo wk) \<Longrightarrow>
   bytesDone (progressInfo wk) + sum_list (map (\<lambda>fi. unat (sizeAtHash io fi)) fis) < 2 ^ 64 \<Longrightarrow>
   \<forall>fi\<in>set fis. openOk (io (realPath fi)) \<longrightarrow>
      bytesCounted (reads (io (realPath fi))) \<le> unat (sizeAtHash io fi) \<Longrightarrow>
   sorted (map bytesDone (sent wk')) \<and>
   (\<forall>q\<in>set (sent wk'). bytesDone q \<le> bytesDone (progressInfo wk'))"
proof (induction fis arbitrary: wk)
  case Nil
  then show ?case by simp
next
  case (Cons fi fis)
  let ?p = "progressInfo wk"
  let ?S = "unat (sizeAtHash io fi)"
  obtain hash logs snaps where
    ch: "calcHash (realPath fi) ?p (io (realPath fi)) = (hash, logs, snaps)"
    by (cases "calcHash (realPath fi) ?p (io (realPath fi))") auto
  from Cons.prems(4) have b1: "bytesDone ?p + ?S < 2 ^ 64" by simp
  from Cons.prems(5) have "openOk (io (realPath fi)) \<longrightarrow>
      bytesCounted (reads (io (realPath fi))) \<le> ?S" by simp
  from calcHash_snaps [OF ch this b1] have
    s1: "sorted (map bytesDone snaps)"
    and s2: "\<forall>q\<in>set snaps. bytesDone ?p \<le> bytesDone q \<and> bytesDone q \<le> bytesDone ?p + ?S"
    by blast+
  from hashLoop_Cons [of fi wk io hash logs snaps md5hex di fis, OF ch] obtain wk2 where
    w1: "sent wk2 = sent wk @ snaps"
    and w2: "progressInfo wk2 =
       ?p\<lparr>fileCount := Increment (fileCount ?p) 1,
         sizeCount := Increment (sizeCount ?p) (sizeAtHash io fi)\<rparr>"
    and w3: "hashLoop md5hex io di (fi # fis) wk = hashLoop md5hex io di fis wk2 \<or>
      (\<exists>cm. hashLoop md5hex io di (fi # fis) wk = (wk2, Some cm))"
    by blast
  from b1 have bd: "bytesDone (progressInfo wk2) = bytesDone ?p + ?S"
    by (simp add: w2 bytesDone_def Increment_def unat_plus_word)
  have cross: "bytesDone x \<le> bytesDone y"
    if "x \<in> set (sent wk)" "y \<in> set snaps" for x y
  proof -
    from that(1) Cons.prems(3) have "bytesDone x \<le> bytesDone ?p" by auto
    moreover from that(2) s2 have "bytesDone ?p \<le> bytesDone y" by auto
    ultimately show ?thesis by simp
  qed
  have n2: "sorted (map bytesDone (sent wk2))"
    using Cons.prems(2) s1 cross by (simp add: w1 sorted_append)
  have i2: "\<forall>q\<in>set (sent wk2). bytesDone q \<le> bytesDone (progressInfo wk2)"
    using Cons.prems(3) s2 bd by (auto simp: w1)
  from w3 show ?case
  proof
    assume "hashLoop md5hex io di (fi # fis) wk = hashLoop md5hex io di fis wk2"
    with Cons.prems(1) have r: "hashLoop md5hex io di fis wk2 = (wk', r)" by simp
    have b2: "bytesDone (progressInfo wk2) + sum_list (map (\<lambda>fi. unat (sizeAtHash io fi)) fis) < 2 ^ 64"
      using Cons.prems(4) bd by simp
    have c2: "\<forall>fi\<in>set fis. openOk (io (realPath fi)) \<longrightarrow>
      bytesCounted (reads (io (realPath fi))) \<le> unat (sizeAtHash io fi)"
      using Cons.prems(5) by simp
    from Cons.IH [OF r n2 i2 b2 c2] show ?thesis .
  next
    assume "\<exists>cm. hashLoop md5hex io di (fi # fis) wk = (wk2, Some cm)"
    with Cons.prems(1) have "wk' = wk2" by auto
    with n2 i2 show ?thesis by simp
  qed
qed

text \<open>
  Claim C7, as amended. In a run of \<^verbatim>\<open>hashRoutine\<close> that returns, the processed-files
  counter never decreases from one snapshot sent on the progress channel to the next (the
  queue, a Go slice, has fewer than \<open>2\<^sup>6\<^sup>4\<close> files); and the processed-bytes counter
  never decreases provided that from no queued file more bytes are read than the size that
  is reported for it after its hash, and that the reported sizes add up to less than
  \<open>2\<^sup>6\<^sup>4\<close>.
\<close>

theorem hashRoutine_progress_nondecreasing:
  assumes "hashRoutine os c md5hex now w io di = Inr (wk, completion)"
    and "listFileInfo os c w di = Inr (fileInfoList, totalSize, w1)"
  shows "(length fileInfoList < 2 ^ 64 \<longrightarrow> sorted (map filesDone (sent wk)))
    \<and> ((\<forall>fi\<in>set fileInfoList. openOk (io (realPath fi)) \<longrightarrow>
           bytesCounted (reads (io (realPath fi))) \<le> unat (sizeAtHash io fi)) \<and>
        sum_list (map (\<lambda>fi. unat (sizeAtHash io fi)) fileInfoList) < 2 ^ 64
        \<longrightarrow> sorted (map bytesDone (sent wk)))"
proof -
  let ?p0 = "\<lparr>piDiskInfo = di,
                        sizeCount = \<lparr>total = totalSize, processed = 0\<rparr>,
                        fileCount = \<lparr>total = of_nat (length fileInfoList), processed = 0\<rparr>,
                        processingFile = [], startTime = now\<rparr>"
  let ?wk0 = "\<lparr>progressInfo = ?p0, sent = [?p0],
                            hashFileOut = (case contents w1 (hashFile c di) of None \<Rightarrow> [] | Some x \<Rightarrow> x),
                            logf = []\<rparr>"
  obtain wk' r where l: "hashLoop md5hex io di fileInfoList ?wk0 = (wk', r)"
    by (cases "hashLoop md5hex io di fileInfoList ?wk0") auto
  have z: "bytesDone ?p0 = 0" "filesDone ?p0 = 0"
    by (simp_all add: bytesDone_def filesDone_def)
  from assms l have wk: "wk = wk' \<or> wk = wk'\<lparr>sent := sent wk' @ [progressInfo wk']\<rparr>"
    by (auto simp: hashRoutine_def Let_def split: if_splits option.splits)
  have 1: "sorted (map filesDone (sent wk))" if len: "length fileInfoList < 2 ^ 64"
  proof -
    have "sorted (map filesDone (sent ?wk0))" by simp
    moreover have "\<forall>q\<in>set (sent ?wk0). filesDone q \<le> filesDone (progressInfo ?wk0)" by simp
    moreover have "filesDone (progressInfo ?wk0) + length fileInfoList < 2 ^ 64"
      using len z by simp
    ultimately have "sorted (map filesDone (sent wk')) \<and>
        (\<forall>q\<in>set (sent wk'). filesDone q \<le> filesDone (progressInfo wk'))"
      by (rule hashLoop_files_mono [OF l])
    with wk show ?thesis by (auto simp: sorted_append)
  qed
  have 2: "sorted (map bytesDone (sent wk))"
    if rd: "\<forall>fi\<in>set fileInfoList. openOk (io (realPath fi)) \<longrightarrow>
           bytesCounted (reads (io (realPath fi))) \<le> unat (sizeAtHash io fi)"
      and sm: "sum_list (map (\<lambda>fi. unat (sizeAtHash io fi)) fileInfoList) < 2 ^ 64"
  proof -
    have "sorted (map bytesDone (sent ?wk0))" by simp
    moreover have "\<forall>q\<in>set (sent ?wk0). bytesDone q \<le> bytesDone (progressInfo ?wk0)" by simp
    moreover have "bytesDone (progressInfo ?wk0) +
        sum_list (map (\<lambda>fi. unat (sizeAtHash io fi)) fileInfoList) < 2 ^ 64"
      using sm z by simp
    ultimately have "sorted (map bytesDone (sent wk')) \<and>
        (\<forall>q\<in>set (sent wk'). bytesDone q \<le> bytesDone (progressInfo wk'))"
      using rd by (rule hashLoop_bytes_mono [OF l])
    with wk show ?thesis by (auto simp: sorted_append)
  qed
  from 1 2 show ?thesis by blast
qed

text \<open>
  The listing of the example disk, and the routine on it for any answers at the hashing.
\<close>

lemma example_listing:
  "\<exists>w1. listFileInfo example_unix example_config example_world example_disk
      = Inr ([init example_unix example_disk ''/mnt/a1/b.txt''], 5, w1)
    \<and> contents w1 (hashFile example_config example_disk)
       = Some (''a.txt:111'' @ [newline] @ ''c.tmp:333'' @ [newline])"
proof -
  have hf: "hashFile example_config example_disk = ''/home/bcbc/out/A1''"
    by (simp add: hashFile_def outDir_def pathJoin_def example_config_def example_disk_def)
  have ls: "scanLines example_prior = [''a.txt:111'', ''gone.txt:222'', ''c.tmp:333'']"
    by (simp add: scanLines_def rawLines_def maxScanTokenSize_def dropCR_def newline_def carriageReturn_def example_prior_def)
  have ct: "contents example_world ''/home/bcbc/out/A1'' = Some example_prior"
    by (simp add: example_world_def)
  have pr: "makeHashMap example_config (contents example_world) example_disk
      = Inr [''a.txt'' \<mapsto> ''111'', ''gone.txt'' \<mapsto> ''222'', ''c.tmp'' \<mapsto> ''333'']"
    by (simp add: makeHashMap_def hf ct ls Let_def)
  have wk: "walkDir example_world (rootPath example_disk)
      = Some [''/mnt/a1/a.txt'', ''/mnt/a1/b.txt'', ''/mnt/a1/c.tmp'', ''/mnt/a1/d.tmp'']"
    by (simp add: example_world_def example_disk_def)
  have np: "normPath (init example_unix example_disk ''/mnt/a1/a.txt'') = ''a.txt''"
    "normPath (init example_unix example_disk ''/mnt/a1/b.txt'') = ''b.txt''"
    "normPath (init example_unix example_disk ''/mnt/a1/c.tmp'') = ''c.tmp''"
    "normPath (init example_unix example_disk ''/mnt/a1/d.tmp'') = ''d.tmp''"
    by (simp_all add: init_def example_unix_def example_disk_def ToSlash_def)
  have ff: "\<not> filterFile (filters example_config) ''d.tmp''"
    "filterFile (filters example_config) ''b.txt''"
    by (simp_all add: example_config_def rule_deny_tmp_def rule_allow_all_def)
  have sz: "fst (fileSize (statSize example_world) (init example_unix example_disk ''/mnt/a1/b.txt'')) = 5"
    by (simp add: fileSize_def init_def example_world_def)
  have wr: "writable example_world ''/home/bcbc/out/A1''"
    by (simp add: example_world_def)
  show ?thesis
    by (simp add: listFileInfo_def pr wk hf wr listFileInfoLoop_result np ff sz printLines_def)
qed

lemma example_run:
  assumes "listFileInfo example_unix example_config example_world example_disk
      = Inr ([init example_unix example_disk ''/mnt/a1/b.txt''], 5, w1)"
  shows "hashRoutine example_unix example_config md5hex now example_world io example_disk =
    (let p0 = \<lparr>piDiskInfo = example_disk,
                        sizeCount = \<lparr>total = 5, processed = 0\<rparr>,
                        fileCount = \<lparr>total = 1, processed = 0\<rparr>,
                        processingFile = [], startTime = now\<rparr>;
         wk0 = \<lparr>progressInfo = p0, sent = [p0],
                            hashFileOut = (case contents w1 (hashFile example_config example_disk) of None \<Rightarrow> [] | Some x \<Rightarrow> x),
                            logf = []\<rparr>
     in case hashLoop md5hex io example_disk [init example_unix example_disk ''/mnt/a1/b.txt''] wk0 of
                      (wk, Some completion) \<Rightarrow> Inr (wk, completion)
                    | (wk, None) \<Rightarrow>
                        Inr (wk\<lparr>sent := sent wk @ [progressInfo wk]\<rparr>,
                             \<lparr>completedDisk = diskId example_disk, failed = False\<rparr>))"
proof -
  have "writable example_world (outDir example_config)" "writable example_world (hashFile example_config example_disk)"
    by (simp_all add: example_world_def)
  with assms show ?thesis
    by (simp add: hashRoutine_def Let_def del: hashLoop.simps)
qed

text \<open>
  Claim C7 as stated fails: when the queued file gives 8 bytes to \<^verbatim>\<open>calcHash\<close> and is
  5 bytes long when its size is asked for afterwards, the snapshots carry 0, 8 and then 5
  processed bytes (and 0, 0 and 1 processed files).
\<close>

theorem hashRoutine_progress_counterexample:
  "map bytesDone (sentSnapshots
      (hashRoutine example_unix example_config example_md5hex 0 example_world example_io_shrunk
         example_disk)) = [0, 8, 5]
   \<and> map filesDone (sentSnapshots
      (hashRoutine example_unix example_config example_md5hex 0 example_world example_io_shrunk
         example_disk)) = [0, 0, 1]
   \<and> \<not> nondecreasing (sentSnapshots
      (hashRoutine example_unix example_config example_md5hex 0 example_world example_io_shrunk
         example_disk))"
proof -
  from example_listing obtain w1 where
    l: "listFileInfo example_unix example_config example_world example_disk
      = Inr ([init example_unix example_disk ''/mnt/a1/b.txt''], 5, w1)"
    by blast
  have b: "map bytesDone (sentSnapshots
      (hashRoutine example_unix example_config example_md5hex 0 example_world example_io_shrunk
         example_disk)) = [0, 8, 5]"
    by (simp add: example_run [OF l] Let_def calcHash_def example_io_shrunk_def init_def
        fileSize_def Increment_def sentSnapshots_def bytesDone_def)
  have f: "map filesDone (sentSnapshots
      (hashRoutine example_unix example_config example_md5hex 0 example_world example_io_shrunk
         example_disk)) = [0, 0, 1]"
    by (simp add: example_run [OF l] Let_def calcHash_def example_io_shrunk_def init_def
        fileSize_def Increment_def sentSnapshots_def filesDone_def)
  from b f show ?thesis by (simp add: nondecreasing_def)
qed

theorem hashRoutine_progress_nondecreasing_witness:
  "nondecreasing (sentSnapshots
      (hashRoutine example_unix example_config example_md5hex 0 example_world example_io_complete
         example_disk))
   \<and> map bytesDone (sentSnapshots
      (hashRoutine example_unix example_config example_md5hex 0 example_world example_io_complete
         example_disk)) = [0, 3, 5, 5]
   \<and> map filesDone (sentSnapshots
      (hashRoutine example_unix example_config example_md5hex 0 example_world example_io_complete
         example_disk)) = [0, 0, 0, 1]"
proof -
  let ?b = "init example_unix example_disk ''/mnt/a1/b.txt''"
  from example_listing obtain w1 where
    l: "listFileInfo example_unix example_config example_world example_disk = Inr ([?b], 5, w1)"
    by blast
  obtain wk completion where
    r: "hashRoutine example_unix example_config example_md5hex 0 example_world example_io_complete
         example_disk = Inr (wk, completion)"
    by (simp add: example_run [OF l] Let_def calcHash_def example_io_complete_def
        split: prod.splits)
  have s: "sizeAtHash example_io_complete ?b = 5"
    by (simp add: sizeAtHash_def fileSize_def init_def example_io_complete_def)
  have a3: "\<forall>fi\<in>set [?b]. openOk (example_io_complete (realPath fi)) \<longrightarrow>
           bytesCounted (reads (example_io_complete (realPath fi))) \<le> unat (sizeAtHash example_io_complete fi)"
    by (simp add: s) (simp add: example_io_complete_def)
  have a4: "sum_list (map (\<lambda>fi. unat (sizeAtHash example_io_complete fi)) [?b]) < 2 ^ 64"
    by (simp add: s)
  have a5: "length [?b] < 2 ^ 64"
    by simp
  from hashRoutine_progress_nondecreasing [OF r l, THEN conjunct1, THEN mp, OF a5]
  have sf: "sorted (map filesDone (sent wk))" .
  from hashRoutine_progress_nondecreasing [OF r l, THEN conjunct2, THEN mp, OF conjI, OF a3 a4]
  have sb: "sorted (map bytesDone (sent wk))" .
  from sf sb have "nondecreasing (sentSnapshots
      (hashRoutine example_unix example_config example_md5hex 0 example_world example_io_complete
         example_disk))"
    by (simp add: r sentSnapshots_def nondecreasing_def)
  moreover have "map bytesDone (sentSnapshots
      (hashRoutine example_unix example_config example_md5hex 0 example_world example_io_complete
         example_disk)) = [0, 3, 5, 5]"
    by (simp add: example_run [OF l] Let_def calcHash_def example_io_complete_def init_def
        fileSize_def Increment_def sentSnapshots_def bytesDone_def)
  moreover have "map filesDone (sentSnapshots
      (hashRoutine example_unix example_config example_md5hex 0 example_world example_io_complete
         example_disk)) = [0, 0, 0, 1]"
    by (simp add: example_run [OF l] Let_def calcHash_def example_io_complete_def init_def
        fileSize_def Increment_def sentSnapshots_def filesDone_def)
  ultimately show ?thesis by simp
qed

text \<open>
  A queued file that cannot be opened: the failure is logged by \<^verbatim>\<open>calcHash\<close> and by
  the routine, nothing is sent and no line is written, the file counter advances by one
  and the byte counter by the size that is reported at that moment, and the loop goes on
  with the next file.
\<close>

lemma hashLoop_open_failure:
  "\<not> openOk (io (realPath fi)) \<Longrightarrow>
   hashLoop md5hex io di (fi # fis) wk =
   hashLoop md5hex io di fis
     (wk\<lparr>progressInfo :=
          (progressInfo wk)\<lparr>fileCount := Increment (fileCount (progressInfo wk)) 1,
            sizeCount := Increment (sizeCount (progressInfo wk)) (sizeAtHash io fi)\<rparr>,
        sent := sent wk,
        logf := logf wk @ [OpenFailed (realPath fi), HashFailed (realPath fi)]\<rparr>)"
  by (simp add: calcHash_def Let_def sizeAtHash_def)

text \<open>
  Claim C6, at a queued file that had 5 bytes at the listing and is gone at the hashing.
  The routine completes without an error, the failure is logged and no line is written,
  and the file counter advances to 1 of 1; but the byte counter advances by 0 and ends at
  0 of 5: the size is asked for again, because the queued value was copied before its
  size was stored, and the second \<^verbatim>\<open>os.Stat\<close> fails.
\<close>

theorem hashRoutine_vanished_file_budget:
  "\<exists>wk. hashRoutine example_unix example_config example_md5hex 0 example_world example_io_gone
            example_disk = Inr (wk, \<lparr>completedDisk = ''A1'', failed = False\<rparr>)
     \<and> logf wk = [OpenFailed ''/mnt/a1/b.txt'', HashFailed ''/mnt/a1/b.txt'']
     \<and> hashFileOut wk = ''a.txt:111'' @ [newline] @ ''c.tmp:333'' @ [newline]
     \<and> fileCount (progressInfo wk) = \<lparr>total = 1, processed = 1\<rparr>
     \<and> sizeCount (progressInfo wk) = \<lparr>total = 5, processed = 0\<rparr>
     \<and> statSize example_world ''/mnt/a1/b.txt'' = Some 5"
proof -
  from example_listing obtain w1 where
    l: "listFileInfo example_unix example_config example_world example_disk
      = Inr ([init example_unix example_disk ''/mnt/a1/b.txt''], 5, w1)"
    and c: "contents w1 (hashFile example_config example_disk)
       = Some (''a.txt:111'' @ [newline] @ ''c.tmp:333'' @ [newline])"
    by blast
  have "statSize example_world ''/mnt/a1/b.txt'' = Some 5"
    by (simp add: example_world_def)
  moreover have "diskId example_disk = ''A1''"
    by (simp add: example_disk_def)
  ultimately show ?thesis
    by (simp add: example_run [OF l] Let_def calcHash_def example_io_gone_def init_def c
        fileSize_def Increment_def)
qed


end
